theory Spec2Isabelle
  imports Complex_Main "HOL-Library.AList"
begin

section \<open>JavaScript values\<close>

text \<open>
  The extension is plain JavaScript. State entries are ordinary objects whose
  properties may be missing or hold a value of any type, so the state and everything
  the codec reads is modelled by one universe of JSON-shaped values. An object is the
  list of its own properties; reading a property that is not there gives
  \<open>undefined\<close>.

  Numbers are IEEE doubles in the program. A finite number is modelled by the rational
  it denotes. The code never computes with the numbers it stores (it only tests them
  and passes them on), apart from the subtraction of two timestamps and of two keys in
  a comparator; the result of a subtraction is rounded to the nearest double.
\<close>

datatype jsnum = NaN | PosInf | NegInf | Fin rat

datatype jsval =
    JUndefined
  | JNull
  | JBool bool
  | JNum jsnum
  | JStr string
  | JArr "jsval list"
  | JObj "(string \<times> jsval) list"

text \<open>Exceptions: a \<open>TypeError\<close> raised by the engine, or \<open>new Error(message)\<close>.\<close>

datatype exn = TypeError | Error string

text \<open>Sequencing of steps that may throw: the first exception ends the computation.\<close>

definition bindE :: "exn + 'a \<Rightarrow> ('a \<Rightarrow> exn + 'b) \<Rightarrow> exn + 'b" where
  "bindE m f = (case m of Inl e \<Rightarrow> Inl e | Inr x \<Rightarrow> f x)"

text \<open>
  Engine primitives and constants that the repository uses but does not define:
  the string-to-number grammar behind \<open>Number(s)\<close>, the number-to-string
  conversion that forms property keys, the default PBKDF2 iteration count of
  \<open>settings.js\<close> (\<open>defaultSettings.encryption.iterations\<close>), PBKDF2 itself, the
  AES-GCM decryption of a wrapped key and the encryption that wraps one, the length of
  a base64 text once decoded (\<open>None\<close> where \<open>atob\<close> throws), and the import of a
  key from its base64 text (\<open>None\<close> where \<open>atob\<close> or \<open>importKey\<close> throws).
\<close>

record env =
  stringToNumber :: "string \<Rightarrow> jsnum"
  numberToString :: "jsnum \<Rightarrow> string"
  defaultIterations :: nat
  pbkdf2 :: "string \<Rightarrow> string \<Rightarrow> nat \<Rightarrow> nat"
  aesUnwrap :: "nat \<Rightarrow> string \<Rightarrow> string \<Rightarrow> nat option"
  base64Length :: "string \<Rightarrow> nat option"
  aesWrap :: "nat \<Rightarrow> string \<Rightarrow> nat \<Rightarrow> string"
  importKey :: "nat \<Rightarrow> nat option"

definition isFinite :: "jsnum \<Rightarrow> bool" where
  "isFinite n = (case n of Fin _ \<Rightarrow> True | _ \<Rightarrow> False)"

definition isInteger :: "jsnum \<Rightarrow> bool" where
  "isInteger n = (case n of Fin q \<Rightarrow> of_int \<lfloor>q\<rfloor> = q | _ \<Rightarrow> False)"

text \<open>\<open>n <= 0\<close> and \<open>a > b\<close> on numbers: every comparison with \<open>NaN\<close> is false.\<close>

definition leZero :: "jsnum \<Rightarrow> bool" where
  "leZero n = (case n of Fin q \<Rightarrow> q \<le> 0 | NegInf \<Rightarrow> True | _ \<Rightarrow> False)"

fun numGreater :: "jsnum \<Rightarrow> jsnum \<Rightarrow> bool" where
  "numGreater NaN _ = False"
| "numGreater _ NaN = False"
| "numGreater (Fin a) (Fin b) = (b < a)"
| "numGreater PosInf PosInf = False"
| "numGreater PosInf _ = True"
| "numGreater _ PosInf = False"
| "numGreater NegInf _ = False"
| "numGreater _ NegInf = True"

text \<open>
  The double nearest to a rational, as IEEE 754 rounds the exact result of an
  operation: 53 significant bits, ties to the even significand, subnormal numbers below
  \<open>2\<^sup>-\<^sup>1\<^sup>0\<^sup>2\<^sup>2\<close>, and an infinity from \<open>2\<^sup>1\<^sup>0\<^sup>2\<^sup>4 - 2\<^sup>9\<^sup>7\<^sup>0\<close> on. \<open>pow2 k\<close> is
  \<open>2\<^sup>k\<close>, \<open>bitLength n\<close> the number of binary digits of a positive integer, and
  \<open>floorLog2 a\<close> the exponent \<open>k\<close> with \<open>2\<^sup>k \<le> a < 2\<^sup>k\<^sup>+\<^sup>1\<close> for a positive rational.
\<close>

definition pow2 :: "int \<Rightarrow> rat" where
  "pow2 k = (if 0 \<le> k then 2 ^ nat k else 1 / 2 ^ nat (- k))"

function bitLength :: "int \<Rightarrow> nat" where
  "bitLength n = (if n \<le> 0 then 0 else Suc (bitLength (n div 2)))"
  by pat_completeness auto
termination
  by (relation "measure nat") auto

declare bitLength.simps [simp del]

definition floorLog2 :: "rat \<Rightarrow> int" where
  "floorLog2 a =
     (let (n, d) = quotient_of a;
          k = int (bitLength n) - int (bitLength d)
      in if pow2 k \<le> a then k else k - 1)"

definition roundHalfEven :: "rat \<Rightarrow> int" where
  "roundHalfEven x =
     (let f = \<lfloor>x\<rfloor>; d = x - of_int f
      in if d < 1 / 2 then f else if 1 / 2 < d then f + 1 else if even f then f else f + 1)"

definition roundDouble :: "rat \<Rightarrow> jsnum" where
  "roundDouble q =
     (if q = 0 then Fin 0
      else
        let a = \<bar>q\<bar>;
            e = max (floorLog2 a - 52) (- 1074);
            r = of_int (roundHalfEven (a / pow2 e)) * pow2 e
        in if pow2 1024 \<le> r then (if 0 < q then PosInf else NegInf)
           else Fin (if 0 < q then r else - r))"

fun numMinus :: "jsnum \<Rightarrow> jsnum \<Rightarrow> jsnum" where
  "numMinus NaN _ = NaN"
| "numMinus _ NaN = NaN"
| "numMinus (Fin a) (Fin b) = roundDouble (a - b)"
| "numMinus PosInf PosInf = NaN"
| "numMinus NegInf NegInf = NaN"
| "numMinus PosInf _ = PosInf"
| "numMinus NegInf _ = NegInf"
| "numMinus _ PosInf = NegInf"
| "numMinus _ NegInf = PosInf"

text \<open>\<open>!!v\<close>: the falsy values are undefined, null, false, 0, NaN and the empty string.\<close>

fun truthy :: "jsval \<Rightarrow> bool" where
  "truthy JUndefined = False"
| "truthy JNull = False"
| "truthy (JBool b) = b"
| "truthy (JNum n) = (n \<noteq> Fin 0 \<and> n \<noteq> NaN)"
| "truthy (JStr s) = (s \<noteq> [])"
| "truthy (JArr _) = True"
| "truthy (JObj _) = True"

text \<open>\<open>a || b\<close> as a value.\<close>

definition orElse :: "jsval \<Rightarrow> jsval \<Rightarrow> jsval" where
  "orElse a b = (if truthy a then a else b)"

text \<open>\<open>typeof v === 'object'\<close> (true of null as well), \<open>typeof v === 'string'\<close>,
  \<open>Array.isArray(v)\<close>.\<close>

fun typeofObject :: "jsval \<Rightarrow> bool" where
  "typeofObject JNull = True"
| "typeofObject (JArr _) = True"
| "typeofObject (JObj _) = True"
| "typeofObject _ = False"

fun typeofString :: "jsval \<Rightarrow> bool" where
  "typeofString (JStr _) = True"
| "typeofString _ = False"

fun isArray :: "jsval \<Rightarrow> bool" where
  "isArray (JArr _) = True"
| "isArray _ = False"

text \<open>
  \<open>a === b\<close>. Primitives compare by value, \<open>NaN\<close> is equal to nothing; an object or
  array is only equal to itself, and the code only ever compares values that come from
  two different sources, so two objects are never the same one.
\<close>

fun strictEq :: "jsval \<Rightarrow> jsval \<Rightarrow> bool" where
  "strictEq (JArr _) _ = False"
| "strictEq (JObj _) _ = False"
| "strictEq (JNum NaN) _ = False"
| "strictEq a b = (a = b)"

text \<open>
  \<open>v.name\<close> and \<open>v?.name\<close> for the property names the program reads (none of them
  is inherited from a prototype): an own property of an object, otherwise undefined.
  The program guards every plain \<open>v.name\<close> so that \<open>v\<close> is not null or undefined
  there.
\<close>

fun getProp :: "jsval \<Rightarrow> string \<Rightarrow> jsval" where
  "getProp (JObj ps) k = (case map_of ps k of Some v \<Rightarrow> v | None \<Rightarrow> JUndefined)"
| "getProp _ k = JUndefined"

text \<open>\<open>tuple[i]\<close>: undefined beyond the end.\<close>

definition idx :: "jsval list \<Rightarrow> nat \<Rightarrow> jsval" where
  "idx xs i = (if i < length xs then xs ! i else JUndefined)"

text \<open>
  \<open>obj[k] = v\<close> on an object made by an object literal. The key \<open>__proto__\<close> is the
  inherited accessor: assigning an object to it replaces the prototype and creates no
  own property.
\<close>

definition objAssign :: "string \<Rightarrow> jsval \<Rightarrow> (string \<times> jsval) list \<Rightarrow> (string \<times> jsval) list" where
  "objAssign k v ps = (if k = ''__proto__'' then ps else AList.update k v ps)"

text \<open>
  A write to a property of an object that is reached through other objects: the object
  keeps its place, so the write shows in \<open>AList.update\<close> of the property list that
  holds it. (The names written this way are \<open>tokenUsed\<close>, \<open>suspendedTabs\<close> and the
  key of an entry that is already there.) \<open>delete obj[k]\<close> removes an own property.
\<close>

fun setProp :: "string \<Rightarrow> jsval \<Rightarrow> jsval \<Rightarrow> jsval" where
  "setProp k v (JObj ps) = JObj (AList.update k v ps)"
| "setProp k v x = x"

fun deleteProp :: "string \<Rightarrow> jsval \<Rightarrow> jsval" where
  "deleteProp k (JObj ps) = JObj (AList.delete k ps)"
| "deleteProp k x = x"

text \<open>
  \<open>String(v)\<close> as \<open>Array.prototype.join\<close> applies it, and \<open>Number(v)\<close>. A JSON
  object has no callable own property, so the conversion of an object to a primitive
  finds \<open>Object.prototype.toString\<close> and yields \<open>[object Object]\<close>, unless the
  object has an own property named \<open>toString\<close>: that one shadows the inherited method,
  is not callable, and the engine throws a TypeError. An array is joined with commas,
  null and undefined elements giving the empty string.
\<close>

fun toStr :: "env \<Rightarrow> jsval \<Rightarrow> exn + string"
  and joinStr :: "env \<Rightarrow> jsval list \<Rightarrow> exn + string"
  and elemStr :: "env \<Rightarrow> jsval \<Rightarrow> exn + string" where
  "toStr E JUndefined = Inr ''undefined''"
| "toStr E JNull = Inr ''null''"
| "toStr E (JBool b) = Inr (if b then ''true'' else ''false'')"
| "toStr E (JNum n) = Inr (numberToString E n)"
| "toStr E (JStr s) = Inr s"
| "toStr E (JArr xs) = joinStr E xs"
| "toStr E (JObj ps) =
     (if ''toString'' \<in> fst ` set ps then Inl TypeError else Inr ''[object Object]'')"
| "joinStr E [] = Inr []"
| "joinStr E [x] = elemStr E x"
| "joinStr E (x # y # ys) =
     (case elemStr E x of
        Inl e \<Rightarrow> Inl e
      | Inr s \<Rightarrow> (case joinStr E (y # ys) of Inl e \<Rightarrow> Inl e | Inr t \<Rightarrow> Inr (s @ '','' @ t)))"
| "elemStr E JUndefined = Inr []"
| "elemStr E JNull = Inr []"
| "elemStr E (JBool b) = toStr E (JBool b)"
| "elemStr E (JNum n) = toStr E (JNum n)"
| "elemStr E (JStr s) = toStr E (JStr s)"
| "elemStr E (JArr xs) = toStr E (JArr xs)"
| "elemStr E (JObj ps) = toStr E (JObj ps)"

fun Number :: "env \<Rightarrow> jsval \<Rightarrow> exn + jsnum" where
  "Number E JUndefined = Inr NaN"
| "Number E JNull = Inr (Fin 0)"
| "Number E (JBool b) = Inr (if b then Fin 1 else Fin 0)"
| "Number E (JNum n) = Inr n"
| "Number E (JStr s) = Inr (stringToNumber E s)"
| "Number E v = (case toStr E v of Inl e \<Rightarrow> Inl e | Inr s \<Rightarrow> Inr (stringToNumber E s))"

text \<open>\<open>Object.entries(v)\<close> for a value that is not null or undefined: the own
  properties of an object, the indexed elements of an array or string, nothing for a
  number or boolean. The properties of an object come in the order of its list; the
  engine enumerates keys that are array indices first, in ascending order, which a
  list need not do. The results below are about the entries an object has, not about
  their order.\<close>

fun indexed :: "env \<Rightarrow> nat \<Rightarrow> jsval list \<Rightarrow> (string \<times> jsval) list" where
  "indexed E i [] = []"
| "indexed E i (x # xs) = (numberToString E (Fin (of_nat i)), x) # indexed E (Suc i) xs"

fun objectEntries :: "env \<Rightarrow> jsval \<Rightarrow> (string \<times> jsval) list" where
  "objectEntries E (JObj ps) = ps"
| "objectEntries E (JArr xs) = indexed E 0 xs"
| "objectEntries E (JStr s) = indexed E 0 (map (\<lambda>c. JStr [c]) s)"
| "objectEntries E _ = []"

section \<open>The state codec (\<open>state-codec.js\<close>)\<close>

definition METHOD_DISCARD :: jsnum where
  "METHOD_DISCARD = Fin 0"

definition METHOD_PAGE :: jsnum where
  "METHOD_PAGE = Fin 1"

text \<open>The empty state \<open>{ suspendedTabs: {} }\<close> and a state with the given entries.\<close>

definition mkState :: "(string \<times> jsval) list \<Rightarrow> jsval" where
  "mkState tabs = JObj [(''suspendedTabs'', JObj tabs)]"

definition toFiniteNumber :: "env \<Rightarrow> jsval \<Rightarrow> jsval \<Rightarrow> exn + jsval" where
  "toFiniteNumber E v fallback =
     (case Number E v of
        Inl e \<Rightarrow> Inl e
      | Inr num \<Rightarrow> Inr (if isFinite num then JNum num else fallback))"

definition decodeMethod :: "jsval \<Rightarrow> string \<Rightarrow> string" where
  "decodeMethod v fallback =
     (if strictEq v (JNum METHOD_DISCARD) \<or> strictEq v (JStr ''discard'') then ''discard''
      else if strictEq v (JNum METHOD_PAGE) \<or> strictEq v (JStr ''page'') then ''page''
      else fallback)"

text \<open>\<open>typeof v === 'string' ? v : ''\<close>.\<close>

definition stringOrEmpty :: "jsval \<Rightarrow> jsval" where
  "stringOrEmpty v = (if typeofString v then v else JStr [])"

text \<open>\<open>Number.isInteger(v)\<close> and \<open>v <= 0\<close> for the value \<open>toFiniteNumber\<close> returned.\<close>

fun isIntegerVal :: "jsval \<Rightarrow> bool" where
  "isIntegerVal (JNum n) = isInteger n"
| "isIntegerVal _ = False"

fun leZeroVal :: "jsval \<Rightarrow> bool" where
  "leZeroVal (JNum n) = leZero n"
| "leZeroVal _ = False"

text \<open>The property key a number becomes in \<open>suspendedTabs[tabId]\<close>.\<close>

fun keyOf :: "env \<Rightarrow> jsval \<Rightarrow> string" where
  "keyOf E (JNum n) = numberToString E n"
| "keyOf E (JStr s) = s"
| "keyOf E v = (case toStr E v of Inr s \<Rightarrow> s | Inl _ \<Rightarrow> [])"

definition normalizeEntry :: "env \<Rightarrow> jsval \<Rightarrow> exn + jsval" where
  "normalizeEntry E entry =
     (if \<not> truthy entry \<or> \<not> typeofObject entry \<or> \<not> typeofString (getProp entry ''url'')
         \<or> \<not> truthy (getProp entry ''url'')
      then Inr JNull
      else
        let method = decodeMethod (getProp entry ''method'')
              (if truthy (orElse (getProp entry ''token'') (getProp entry ''tokenIssuedAt''))
               then ''page'' else ''discard'')
        in bindE (toFiniteNumber E (getProp entry ''windowId'') (JNum (Fin 0))) (\<lambda>windowId.
           bindE (toFiniteNumber E (getProp entry ''suspendedAt'') (JNum (Fin 0))) (\<lambda>suspendedAt.
             let normalized =
               [(''url'', getProp entry ''url''),
                (''title'', stringOrEmpty (getProp entry ''title'')),
                (''windowId'', windowId),
                (''suspendedAt'', suspendedAt),
                (''method'', JStr method),
                (''reason'', stringOrEmpty (getProp entry ''reason'')),
                (''favIconUrl'', stringOrEmpty (getProp entry ''favIconUrl''))]
             in if method = ''page''
                then bindE (toFiniteNumber E (getProp entry ''tokenIssuedAt'') suspendedAt)
                       (\<lambda>tokenIssuedAt.
                          Inr (JObj (normalized @
                            [(''token'', stringOrEmpty (getProp entry ''token'')),
                             (''tokenIssuedAt'', tokenIssuedAt),
                             (''tokenUsed'', JBool (truthy (getProp entry ''tokenUsed'')))])))
                else Inr (JObj normalized))))"

text \<open>The \<open>for\<close> loop of \<open>decodeLegacyState\<close>, over the entries still to visit, with
  the \<open>suspendedTabs\<close> object built so far.\<close>

fun legacyLoop :: "env \<Rightarrow> (string \<times> jsval) list \<Rightarrow> (string \<times> jsval) list
    \<Rightarrow> exn + (string \<times> jsval) list" where
  "legacyLoop E [] suspendedTabs = Inr suspendedTabs"
| "legacyLoop E ((tabId, entry) # rest) suspendedTabs =
     (case normalizeEntry E entry of
        Inl e \<Rightarrow> Inl e
      | Inr normalized \<Rightarrow>
          if \<not> truthy normalized then legacyLoop E rest suspendedTabs
          else legacyLoop E rest (objAssign tabId normalized suspendedTabs))"

definition decodeLegacyState :: "env \<Rightarrow> jsval \<Rightarrow> exn + jsval" where
  "decodeLegacyState E raw =
     (let source = getProp raw ''suspendedTabs''
      in if \<not> truthy source \<or> \<not> typeofObject source then Inr (mkState [])
         else (case legacyLoop E (objectEntries E source) [] of
                 Inl e \<Rightarrow> Inl e
               | Inr suspendedTabs \<Rightarrow> Inr (mkState suspendedTabs)))"

text \<open>One pass of the \<open>for\<close> loop of \<open>decodeCompactState\<close>: \<open>None\<close> is
  \<open>continue\<close>, otherwise the key and the entry to store.\<close>

definition decodeTuple :: "env \<Rightarrow> jsval \<Rightarrow> exn + (string \<times> jsval) option" where
  "decodeTuple E tuple =
     (case tuple of
        JArr t \<Rightarrow>
          if length t < 11 then Inr None
          else bindE (toFiniteNumber E (idx t 0) (JNum NaN)) (\<lambda>tabId.
            if \<not> isIntegerVal tabId \<or> leZeroVal tabId then Inr None
            else
              let method = decodeMethod (idx t 5) ''page''
              in bindE (toFiniteNumber E (idx t 3) (JNum (Fin 0))) (\<lambda>windowId.
                 bindE (toFiniteNumber E (idx t 4) (JNum (Fin 0))) (\<lambda>suspendedAt.
                   let entry =
                     [(''url'', stringOrEmpty (idx t 1)),
                      (''title'', stringOrEmpty (idx t 2)),
                      (''windowId'', windowId),
                      (''suspendedAt'', suspendedAt),
                      (''method'', JStr method),
                      (''reason'', stringOrEmpty (idx t 6)),
                      (''favIconUrl'', stringOrEmpty (idx t 10))]
                   in if \<not> truthy (stringOrEmpty (idx t 1)) then Inr None
                      else if method = ''page''
                      then bindE (toFiniteNumber E (idx t 8) suspendedAt) (\<lambda>tokenIssuedAt.
                             Inr (Some (keyOf E tabId, JObj (entry @
                               [(''token'', stringOrEmpty (idx t 7)),
                                (''tokenIssuedAt'', tokenIssuedAt),
                                (''tokenUsed'', JBool (strictEq (idx t 9) (JNum (Fin 1))
                                    \<or> strictEq (idx t 9) (JBool True)))]))))
                      else Inr (Some (keyOf E tabId, JObj entry)))))
      | _ \<Rightarrow> Inr None)"

fun compactLoop :: "env \<Rightarrow> jsval list \<Rightarrow> (string \<times> jsval) list
    \<Rightarrow> exn + (string \<times> jsval) list" where
  "compactLoop E [] suspendedTabs = Inr suspendedTabs"
| "compactLoop E (tuple # rest) suspendedTabs =
     (case decodeTuple E tuple of
        Inl e \<Rightarrow> Inl e
      | Inr None \<Rightarrow> compactLoop E rest suspendedTabs
      | Inr (Some (k, entry)) \<Rightarrow> compactLoop E rest (objAssign k entry suspendedTabs))"

definition decodeCompactState :: "env \<Rightarrow> jsval \<Rightarrow> exn + jsval" where
  "decodeCompactState E raw =
     (let tuples = (case getProp raw ''tabs'' of JArr ts \<Rightarrow> ts | _ \<Rightarrow> [])
      in case compactLoop E tuples [] of
           Inl e \<Rightarrow> Inl e
         | Inr suspendedTabs \<Rightarrow> Inr (mkState suspendedTabs))"

definition decodeStateAny :: "env \<Rightarrow> jsval \<Rightarrow> exn + jsval" where
  "decodeStateAny E raw =
     (if \<not> truthy raw \<or> \<not> typeofObject raw then Inr (mkState [])
      else if strictEq (getProp raw ''v'') (JNum (Fin 2)) then decodeCompactState E raw
      else decodeLegacyState E raw)"

definition encodeTuple :: "env \<Rightarrow> string \<Rightarrow> jsval \<Rightarrow> exn + jsval" where
  "encodeTuple E tabId entry =
     (let method = decodeMethod (getProp entry ''method'') ''page''
      in bindE (toFiniteNumber E (getProp entry ''windowId'') (JNum (Fin 0))) (\<lambda>windowId.
         bindE (toFiniteNumber E (getProp entry ''suspendedAt'') (JNum (Fin 0))) (\<lambda>suspendedAt.
         bindE (if method = ''page''
                then toFiniteNumber E (getProp entry ''tokenIssuedAt'')
                       (getProp entry ''suspendedAt'')
                else Inr (JNum (Fin 0))) (\<lambda>tokenIssuedAt.
           Inr (JArr
             [JNum (stringToNumber E tabId),
              stringOrEmpty (getProp entry ''url''),
              stringOrEmpty (getProp entry ''title''),
              windowId,
              suspendedAt,
              JNum (if method = ''discard'' then METHOD_DISCARD else METHOD_PAGE),
              stringOrEmpty (getProp entry ''reason''),
              (if method = ''page'' \<and> typeofString (getProp entry ''token'')
               then getProp entry ''token'' else JStr []),
              tokenIssuedAt,
              JNum (if method = ''page'' \<and> truthy (getProp entry ''tokenUsed'')
                    then Fin 1 else Fin 0),
              stringOrEmpty (getProp entry ''favIconUrl'')])))))"

text \<open>
  \<open>entries.sort((a, b) => Number(a[0]) - Number(b[0]))\<close>: a stable insertion sort
  that asks the comparator whether its result is positive (a comparator result of
  \<open>NaN\<close> counts as zero). For keys that denote numbers the comparator is consistent
  and every sort gives this order; otherwise the engine is free to give another.
\<close>

definition comparePositive :: "env \<Rightarrow> string \<times> jsval \<Rightarrow> string \<times> jsval \<Rightarrow> bool" where
  "comparePositive E a b =
     numGreater (numMinus (stringToNumber E (fst a)) (stringToNumber E (fst b))) (Fin 0)"

fun insertEntry :: "env \<Rightarrow> string \<times> jsval \<Rightarrow> (string \<times> jsval) list \<Rightarrow> (string \<times> jsval) list" where
  "insertEntry E a [] = [a]"
| "insertEntry E a (b # bs) =
     (if comparePositive E a b then b # insertEntry E a bs else a # b # bs)"

definition sortEntries :: "env \<Rightarrow> (string \<times> jsval) list \<Rightarrow> (string \<times> jsval) list" where
  "sortEntries E entries = foldr (insertEntry E) entries []"

fun encodeLoop :: "env \<Rightarrow> (string \<times> jsval) list \<Rightarrow> jsval list \<Rightarrow> exn + jsval list" where
  "encodeLoop E [] tabs = Inr tabs"
| "encodeLoop E ((tabId, entry) # rest) tabs =
     (case normalizeEntry E entry of
        Inl e \<Rightarrow> Inl e
      | Inr normalized \<Rightarrow>
          if \<not> truthy normalized then encodeLoop E rest tabs
          else (case encodeTuple E tabId normalized of
                  Inl e \<Rightarrow> Inl e
                | Inr tuple \<Rightarrow> encodeLoop E rest (tabs @ [tuple])))"

definition encodeStateV2 :: "env \<Rightarrow> jsval \<Rightarrow> exn + jsval" where
  "encodeStateV2 E state =
     (let entries = sortEntries E
            (objectEntries E (orElse (getProp state ''suspendedTabs'') (JObj [])))
      in case encodeLoop E entries [] of
           Inl e \<Rightarrow> Inl e
         | Inr tabs \<Rightarrow> Inr (JObj [(''v'', JNum (Fin 2)), (''tabs'', JArr tabs)]))"

section \<open>Key management (\<open>encryption.js\<close>)\<close>

text \<open>
  A data key is identified by a number, and so is the base64 text that
  \<open>exportKeyBase64\<close> makes of it. The key record is the object persisted under
  \<open>encryptionKeyRecord\<close>; a text field that is missing or not a string is \<open>None\<close>.
\<close>

type_synonym cryptokey = nat

record keyrec =
  usingPasskey :: bool
  dataKey :: "cryptokey option"
  encryptedKey :: "string option"
  keySalt :: "string option"
  keyIV :: "string option"
  iterations :: "nat option"
  cloudBackupEnabled :: bool
  keyVersion :: nat
  updatedAt :: int

text \<open>The part of the settings object the core reads: \<open>settings.encryption\<close>.\<close>

record settings =
  enc_enabled :: bool
  enc_cloudBackupEnabled :: bool
  enc_iterations :: "nat option"

text \<open>
  What \<open>chrome.storage.local\<close> holds under \<open>suspenderState\<close>. AES-GCM is a black
  box: \<open>Encrypted k v\<close> stands for \<open>{iv, ct}\<close> where \<open>ct\<close> is the ciphertext, under
  the key \<open>k\<close>, of the JSON text of \<open>v\<close>; it decrypts under \<open>k\<close> and under no other
  key. \<open>Garbled\<close> is an \<open>{iv, ct}\<close> that no key decrypts to JSON (damaged or foreign
  bytes), \<open>PlainPayload v\<close> is \<open>{plain: v}\<close>, and \<open>OtherPayload\<close> any other stored
  object. The payload holds the value itself and not its JSON text, so what JSON does
  to a number that is not finite (it becomes \<open>null\<close>) is not modelled; in an encoded
  state that can only be the id of a tuple, and the decoder drops the tuple either way.
\<close>

datatype payload = Encrypted cryptokey jsval | Garbled | PlainPayload jsval | OtherPayload

text \<open>
  The module variables of \<open>encryption.js\<close> and \<open>background.js\<close> that the core uses,
  and the storage areas: \<open>chrome.storage.local\<close> (state, snapshots, key record,
  settings), \<open>chrome.storage.sync\<close> (key record) and \<open>chrome.storage.session\<close>
  (the unwrapped key, the legacy pending state). A module variable that holds
  \<open>null\<close> is \<open>None\<close>; \<open>cachedState\<close> holds a value, \<open>JNull\<close> at first.
\<close>

record world =
  cryptoKey :: "cryptokey option"
  encryptionLocked :: bool
  encryptionLockReason :: "string option"
  cachedState :: jsval
  stateCorruptionReason :: "string option"
  snapshotDetailsCache :: "(string \<times> jsval) list"
  localState :: "payload option"
  localBackups :: "jsval option"
  localKeyRecord :: "keyrec option"
  localSettings :: settings
  syncKeyRecord :: "keyrec option"
  sessionCryptoKey :: "cryptokey option"
  sessionPendingState :: "jsval option"

definition KEY_VERSION :: nat where
  "KEY_VERSION = 1"

definition MIN_ITERATIONS :: nat where
  "MIN_ITERATIONS = 150000"

text \<open>\<open>iterations || fallback\<close> on a count that may be missing or zero.\<close>

definition orDefault :: "nat option \<Rightarrow> nat \<Rightarrow> nat" where
  "orDefault iters fallback =
     (case iters of None \<Rightarrow> fallback | Some n \<Rightarrow> if n = 0 then fallback else n)"

text \<open>\<open>s || fallback\<close> on a text that may be null or empty.\<close>

definition orText :: "string option \<Rightarrow> string \<Rightarrow> string" where
  "orText s fallback = (case s of None \<Rightarrow> fallback | Some t \<Rightarrow> if t = [] then fallback else t)"

definition deriveWrappingKey :: "env \<Rightarrow> string \<Rightarrow> string \<Rightarrow> nat option \<Rightarrow> bool \<Rightarrow> nat" where
  "deriveWrappingKey E passkey saltBytes iters enforceFloor =
     pbkdf2 E passkey saltBytes
       (if enforceFloor then max (orDefault iters (defaultIterations E)) MIN_ITERATIONS
        else orDefault iters (defaultIterations E))"

definition isValidKeyRecord :: "env \<Rightarrow> keyrec option \<Rightarrow> bool" where
  "isValidKeyRecord E r =
     (case r of
        None \<Rightarrow> False
      | Some record \<Rightarrow>
          (case (encryptedKey record, keySalt record, keyIV record) of
             (Some ek, Some salt, Some iv) \<Rightarrow>
               ek \<noteq> [] \<and> salt \<noteq> [] \<and> iv \<noteq> [] \<and>
               base64Length E salt = Some 16 \<and> base64Length E iv = Some 12
           | _ \<Rightarrow> False))"

definition saveKeyToSession :: "cryptokey \<Rightarrow> world \<Rightarrow> world" where
  "saveKeyToSession key w = w\<lparr>sessionCryptoKey := Some key\<rparr>"

text \<open>
  \<open>unwrapDataKey\<close>. The wrapping key is derived with \<open>enforceFloor = false\<close>, from
  \<open>record.iterations || defaultSettings.encryption.iterations\<close>. A decryption that
  fails throws (the message is the engine's).
\<close>

definition unwrapDataKey :: "env \<Rightarrow> string \<Rightarrow> keyrec \<Rightarrow> world \<Rightarrow> (exn + cryptokey) \<times> world" where
  "unwrapDataKey E passkey record w =
     (if \<not> isValidKeyRecord E (Some record)
      then (Inl (Error ''Encrypted key record is incomplete or invalid''), w)
      else
        let salt = the (keySalt record);
            iv = the (keyIV record);
            encrypted = the (encryptedKey record);
            wrappingKey = deriveWrappingKey E passkey salt
              (Some (orDefault (iterations record) (defaultIterations E))) False
        in case aesUnwrap E wrappingKey iv encrypted of
             None \<Rightarrow> (Inl (Error ''OperationError''), w)
           | Some raw \<Rightarrow>
               (Inr raw,
                (saveKeyToSession raw (w\<lparr>cryptoKey := Some raw\<rparr>))
                  \<lparr>encryptionLocked := False, encryptionLockReason := None\<rparr>))"

definition clearSessionKey :: "world \<Rightarrow> world" where
  "clearSessionKey w = w\<lparr>cryptoKey := None, sessionCryptoKey := None\<rparr>"

text \<open>\<open>persistKeyRecord\<close> returns \<open>{syncEligible, syncBlockedReason}\<close>.\<close>

definition persistKeyRecord :: "keyrec \<Rightarrow> world \<Rightarrow> (bool \<times> string option) \<times> world" where
  "persistKeyRecord record w =
     (let syncEligible = (cloudBackupEnabled record \<and> usingPasskey record);
          w1 = (if syncEligible then w\<lparr>syncKeyRecord := Some record\<rparr>
                else w\<lparr>syncKeyRecord := None\<rparr>);
          w2 = w1\<lparr>localKeyRecord := Some record\<rparr>
      in ((syncEligible,
           if cloudBackupEnabled record \<and> \<not> syncEligible then Some ''passkey-required'' else None),
          w2))"

definition loadKeyRecord :: "bool \<Rightarrow> world \<Rightarrow> keyrec option" where
  "loadKeyRecord preferCloud w =
     (let syncRecord = syncKeyRecord w; localRecord = localKeyRecord w
      in if preferCloud
         then (case syncRecord of Some r \<Rightarrow> Some r | None \<Rightarrow> localRecord)
         else (case localRecord of Some r \<Rightarrow> Some r | None \<Rightarrow> syncRecord))"

definition clearKeyRecords :: "world \<Rightarrow> world" where
  "clearKeyRecords w = w\<lparr>syncKeyRecord := None, localKeyRecord := None\<rparr>"

text \<open>
  Modelled from the spec: \<open>ensureSettings\<close> and \<open>saveSettings\<close> of \<open>settings.js\<close>,
  which is not among the sources. The settings are a persisted object; the one reads
  it, the other replaces it.
\<close>

definition ensureSettings :: "world \<Rightarrow> settings" where
  "ensureSettings w = localSettings w"

definition saveSettings :: "settings \<Rightarrow> world \<Rightarrow> world" where
  "saveSettings nextSettings w = w\<lparr>localSettings := nextSettings\<rparr>"

text \<open>\<open>generateAndPersistDataKey\<close>; the key \<open>crypto.subtle.generateKey\<close> returns
  and the clock are arguments.\<close>

definition generateAndPersistDataKey :: "cryptokey \<Rightarrow> int \<Rightarrow> bool \<Rightarrow> world \<Rightarrow> keyrec \<times> world" where
  "generateAndPersistDataKey newKey now cloudBackup w =
     (let requestedCloudBackup = cloudBackup;
          w1 = w\<lparr>cryptoKey := Some newKey\<rparr>;
          record = \<lparr>usingPasskey = False, dataKey = Some newKey, encryptedKey = None,
                    keySalt = None, keyIV = None, iterations = None,
                    cloudBackupEnabled = False, keyVersion = KEY_VERSION, updatedAt = now\<rparr>;
          w2 = snd (persistKeyRecord record w1);
          w3 = (if requestedCloudBackup
                then (let settings = ensureSettings w2
                      in if enc_cloudBackupEnabled settings
                         then saveSettings (settings\<lparr>enc_cloudBackupEnabled := False\<rparr>) w2
                         else w2)
                else w2);
          w4 = saveKeyToSession newKey w3
      in (record, w4\<lparr>encryptionLocked := False, encryptionLockReason := None\<rparr>))"

definition markEncryptionLocked :: "string option \<Rightarrow> world \<Rightarrow> world" where
  "markEncryptionLocked reason w =
     w\<lparr>encryptionLocked := True,
       encryptionLockReason := (case reason of None \<Rightarrow> None | Some r \<Rightarrow> if r = [] then None else Some r)\<rparr>"

text \<open>Responses of the message contract.\<close>

datatype response =
    RespOk
  | RespError string
  | RespLocked string
  | RespSkipped string

text \<open>\<open>setCloudBackupEnabled(enabled)\<close>, the clock an argument.\<close>

definition setCloudBackupEnabled :: "int \<Rightarrow> bool \<Rightarrow> world \<Rightarrow> response \<times> world" where
  "setCloudBackupEnabled now enabled w =
     (let settings = ensureSettings w;
          requested = enabled;
          record0 = loadKeyRecord requested w;
          record = (case (record0, cryptoKey w) of
                      (None, Some key) \<Rightarrow>
                        Some \<lparr>usingPasskey = False, dataKey = Some key, encryptedKey = None,
                              keySalt = None, keyIV = None, iterations = None,
                              cloudBackupEnabled = False, keyVersion = KEY_VERSION,
                              updatedAt = now\<rparr>
                    | _ \<Rightarrow> record0)
      in if requested \<and> (case record of None \<Rightarrow> True | Some r \<Rightarrow> \<not> usingPasskey r)
         then (RespError ''passkey-required'', w)
         else
           let nextSettings = settings\<lparr>enc_cloudBackupEnabled := requested\<rparr>;
               w1 = saveSettings nextSettings w
           in (case record of
                 Some r \<Rightarrow> (RespOk, snd (persistKeyRecord (r\<lparr>cloudBackupEnabled := requested\<rparr>) w1))
               | None \<Rightarrow> (RespOk, if \<not> requested then clearKeyRecords w1 else w1)))"

text \<open>
  \<open>wrapDataKey(passkey)\<close>; the random salt and initialisation vector are arguments
  (as their base64 texts). The wrapping key is derived with the floor enforced, and
  the record keeps \<open>settings.encryption.iterations\<close> as it is.
\<close>

definition wrapDataKey :: "env \<Rightarrow> string \<Rightarrow> string \<Rightarrow> string \<Rightarrow> world
    \<Rightarrow> exn + string \<times> string \<times> string \<times> nat option" where
  "wrapDataKey E salt iv passkey w =
     (case cryptoKey w of
        None \<Rightarrow> Inl (Error ''Data key not available to wrap'')
      | Some key \<Rightarrow>
          let settings = ensureSettings w;
              wrappingKey = deriveWrappingKey E passkey salt (enc_iterations settings) True
          in Inr (aesWrap E wrappingKey iv key, salt, iv, enc_iterations settings))"

text \<open>
  \<open>unlockWithPasskey(passkey)\<close>, with the random values of \<open>wrapDataKey\<close> and the
  clock as arguments. After a successful unwrap a record with fewer than
  \<open>MIN_ITERATIONS\<close> iterations is wrapped again; a failure there is caught and ignored.
\<close>

definition unlockWithPasskey :: "env \<Rightarrow> string \<Rightarrow> string \<Rightarrow> int \<Rightarrow> string \<Rightarrow> world
    \<Rightarrow> response \<times> world" where
  "unlockWithPasskey E salt iv now passkey w =
     (let settings = ensureSettings w
      in case loadKeyRecord (enc_cloudBackupEnabled settings) w of
           None \<Rightarrow> (RespError ''not-locked'', w)
         | Some record \<Rightarrow>
             if \<not> usingPasskey record then (RespError ''not-locked'', w)
             else
               (case unwrapDataKey E passkey record w of
                  (Inl err, w1) \<Rightarrow>
                    (RespError ''bad-passkey'', markEncryptionLocked (Some ''bad-passkey'') w1)
                | (Inr key, w1) \<Rightarrow>
                    let recordIterations =
                          (case iterations record of
                             None \<Rightarrow> enc_iterations settings
                           | Some n \<Rightarrow> if n = 0 then enc_iterations settings else Some n)
                    in if (case recordIterations of None \<Rightarrow> False | Some n \<Rightarrow> n < MIN_ITERATIONS)
                       then (case wrapDataKey E salt iv passkey w1 of
                               Inl upgradeErr \<Rightarrow> (RespOk, w1)
                             | Inr (ek, ks, kiv, its) \<Rightarrow>
                                 (RespOk,
                                  snd (persistKeyRecord
                                    (record\<lparr>encryptedKey := Some ek, keySalt := Some ks,
                                       keyIV := Some kiv, iterations := its, updatedAt := now\<rparr>)
                                    w1)))
                       else (RespOk, w1)))"

text \<open>\<open>retryImportPlaintextKey\<close>. The base64 text \<open>record.dataKey\<close> is identified
  by a number, as the key is; importing it may fail.\<close>

definition retryImportPlaintextKey :: "env \<Rightarrow> world \<Rightarrow> response \<times> world" where
  "retryImportPlaintextKey E w =
     (let settings = ensureSettings w
      in case loadKeyRecord (enc_cloudBackupEnabled settings) w of
           None \<Rightarrow> (RespError ''no-plaintext-record'', w)
         | Some record \<Rightarrow>
             if usingPasskey record then (RespError ''no-plaintext-record'', w)
             else
               (case dataKey record of
                  None \<Rightarrow> (RespError ''no-plaintext-record'', w)
                | Some b64 \<Rightarrow>
                    (case importKey E b64 of
                       Some key \<Rightarrow>
                         (RespOk,
                          saveKeyToSession key
                            (w\<lparr>cryptoKey := Some key, encryptionLocked := False,
                               encryptionLockReason := None\<rparr>))
                     | None \<Rightarrow>
                         (RespError ''corrupt-key'',
                          markEncryptionLocked (Some ''corrupt-key'') w))))"

section \<open>The state store (\<open>background.js\<close>)\<close>

definition hasCryptoKey :: "world \<Rightarrow> bool" where
  "hasCryptoKey w = (cryptoKey w \<noteq> None)"

definition encryptionIsLocked :: "world \<Rightarrow> bool" where
  "encryptionIsLocked w = encryptionLocked w"

definition encryptionReason :: "world \<Rightarrow> string option" where
  "encryptionReason w = encryptionLockReason w"

definition stateIsLocked :: "world \<Rightarrow> bool" where
  "stateIsLocked w = (encryptionIsLocked w \<or> \<not> hasCryptoKey w)"

definition markStateCorrupt :: "string \<Rightarrow> world \<Rightarrow> world" where
  "markStateCorrupt reason w = w\<lparr>stateCorruptionReason := Some reason\<rparr>"

definition clearStateCorruption :: "world \<Rightarrow> world" where
  "clearStateCorruption w = w\<lparr>stateCorruptionReason := None\<rparr>"

definition stateIsCorrupt :: "world \<Rightarrow> bool" where
  "stateIsCorrupt w = (case stateCorruptionReason w of None \<Rightarrow> False | Some r \<Rightarrow> r \<noteq> [])"

definition stateLockReason :: "world \<Rightarrow> string option" where
  "stateLockReason w =
     (if stateIsCorrupt w then stateCorruptionReason w else encryptionReason w)"

definition stateWriteBlockedReason :: "world \<Rightarrow> string option" where
  "stateWriteBlockedReason w =
     (if stateIsCorrupt w then Some (orText (stateLockReason w) ''corrupt-state'')
      else if stateIsLocked w then Some (orText (stateLockReason w) ''locked'')
      else None)"

definition stateIsWritable :: "world \<Rightarrow> bool" where
  "stateIsWritable w = (stateWriteBlockedReason w = None)"

text \<open>\<open>lockedMutationResponse({skip})\<close>: \<open>{ok: true, skipped: 'locked', reason}\<close> with
  \<open>skip\<close>, otherwise \<open>{ok: false, locked: true, reason}\<close>.\<close>

definition lockedMutationResponse :: "bool \<Rightarrow> world \<Rightarrow> response" where
  "lockedMutationResponse skip w =
     (let reason = orText (stateWriteBlockedReason w) ''locked''
      in if skip then RespSkipped reason else RespLocked reason)"

definition clearLegacyPendingState :: "world \<Rightarrow> world" where
  "clearLegacyPendingState w = w\<lparr>sessionPendingState := None\<rparr>"

definition clearSnapshotDetailsCache :: "world \<Rightarrow> world" where
  "clearSnapshotDetailsCache w = w\<lparr>snapshotDetailsCache := []\<rparr>"

definition encryptPayload :: "jsval \<Rightarrow> world \<Rightarrow> exn + payload" where
  "encryptPayload v w =
     (case cryptoKey w of
        None \<Rightarrow> Inl (Error ''Encryption key not available'')
      | Some key \<Rightarrow> Inr (Encrypted key v))"

definition decryptPayload :: "payload \<Rightarrow> world \<Rightarrow> exn + jsval" where
  "decryptPayload p w =
     (case cryptoKey w of
        None \<Rightarrow> Inl (Error ''Encryption key not available'')
      | Some key \<Rightarrow>
          (case p of
             Encrypted k v \<Rightarrow> if k = key then Inr v else Inl (Error ''OperationError'')
           | _ \<Rightarrow> Inl (Error ''OperationError'')))"

text \<open>
  \<open>loadState\<close> returns \<open>cachedState\<close> on every path, so the caller holds the cached
  object itself. An exception leaves the world as it was when it was thrown.
\<close>

definition loadState :: "env \<Rightarrow> world \<Rightarrow> (exn + jsval) \<times> world" where
  "loadState E w =
     (if stateIsLocked w
      then (let w1 = w\<lparr>cachedState := orElse (cachedState w) (mkState [])\<rparr>
            in (Inr (cachedState w1), w1))
      else if truthy (cachedState w) then (Inr (cachedState w), w)
      else
        (case localState w of
           Some (Encrypted k v) \<Rightarrow>
             (case bindE (decryptPayload (Encrypted k v) w) (decodeStateAny E) of
                Inr decoded \<Rightarrow>
                  (let w1 = clearStateCorruption (w\<lparr>cachedState := decoded\<rparr>)
                   in (Inr (cachedState w1), w1))
              | Inl err \<Rightarrow>
                  (let w1 = markStateCorrupt ''corrupt-state'' w;
                       w2 = w1\<lparr>cachedState := orElse (cachedState w1) (mkState [])\<rparr>
                   in (Inr (cachedState w2), w2)))
         | Some Garbled \<Rightarrow>
             (case bindE (decryptPayload Garbled w) (decodeStateAny E) of
                Inr decoded \<Rightarrow>
                  (let w1 = clearStateCorruption (w\<lparr>cachedState := decoded\<rparr>)
                   in (Inr (cachedState w1), w1))
              | Inl err \<Rightarrow>
                  (let w1 = markStateCorrupt ''corrupt-state'' w;
                       w2 = w1\<lparr>cachedState := orElse (cachedState w1) (mkState [])\<rparr>
                   in (Inr (cachedState w2), w2)))
         | Some (PlainPayload v) \<Rightarrow>
             if truthy v
             then (let w1 = clearStateCorruption w
                   in case decodeStateAny E v of
                        Inl e \<Rightarrow> (Inl e, w1)
                      | Inr decoded \<Rightarrow> (Inr decoded, w1\<lparr>cachedState := decoded\<rparr>))
             else (let w1 = (clearStateCorruption w)\<lparr>cachedState := mkState []\<rparr>
                   in (Inr (cachedState w1), w1))
         | _ \<Rightarrow>
             (let w1 = (clearStateCorruption w)\<lparr>cachedState := mkState []\<rparr>
              in (Inr (cachedState w1), w1))))"

definition saveStateInternal :: "env \<Rightarrow> jsval \<Rightarrow> world \<Rightarrow> (exn + unit) \<times> world" where
  "saveStateInternal E state w =
     (case stateWriteBlockedReason w of
        Some blockedReason \<Rightarrow> (Inl (Error blockedReason), w)
      | None \<Rightarrow>
          (case encodeStateV2 E state of
             Inl e \<Rightarrow> (Inl e, w)
           | Inr encodedState \<Rightarrow>
               (let settings = ensureSettings w
                in if enc_enabled settings
                   then (case encryptPayload encodedState w of
                           Inl e \<Rightarrow> (Inl e, w)
                         | Inr encrypted \<Rightarrow> (Inr (), w\<lparr>localState := Some encrypted\<rparr>))
                   else (Inr (), w\<lparr>localState := Some (PlainPayload encodedState)\<rparr>))))"

text \<open>\<open>saveState\<close> first waits for a reconciliation in flight; here none is.\<close>

definition saveState :: "env \<Rightarrow> jsval \<Rightarrow> world \<Rightarrow> (exn + unit) \<times> world" where
  "saveState E state w = saveStateInternal E state (w\<lparr>cachedState := state\<rparr>)"

text \<open>\<open>handleStorageChanged(changes, areaName)\<close>; the second argument says whether
  \<open>changes\<close> has the key \<open>suspenderState\<close>.\<close>

definition handleStorageChanged :: "string \<Rightarrow> bool \<Rightarrow> world \<Rightarrow> world" where
  "handleStorageChanged areaName stateKeyChanged w =
     (if areaName = ''local'' \<and> stateKeyChanged
      then clearStateCorruption (w\<lparr>cachedState := JNull\<rparr>)
      else w)"

definition reconcilePendingStateAfterUnlock :: "env \<Rightarrow> world \<Rightarrow> (exn + unit) \<times> world" where
  "reconcilePendingStateAfterUnlock E w =
     (let finish = (\<lambda>merged w1.
            let w2 = w1\<lparr>cachedState := merged\<rparr>
            in case saveStateInternal E merged w2 of
                 (Inl saveErr, w3) \<Rightarrow> (Inr (), markStateCorrupt ''corrupt-state'' w3)
               | (Inr u, w3) \<Rightarrow> (Inr (), w3));
          failed = (\<lambda>w0.
            let w1 = markStateCorrupt ''corrupt-state'' w0
            in (Inr (), w1\<lparr>cachedState := orElse (cachedState w1) (mkState [])\<rparr>))
      in case localState w of
           Some (Encrypted k v) \<Rightarrow>
             (case bindE (decryptPayload (Encrypted k v) w) (decodeStateAny E) of
                Inr decrypted \<Rightarrow> finish decrypted (clearStateCorruption w)
              | Inl err \<Rightarrow> failed w)
         | Some Garbled \<Rightarrow>
             (case bindE (decryptPayload Garbled w) (decodeStateAny E) of
                Inr decrypted \<Rightarrow> finish decrypted (clearStateCorruption w)
              | Inl err \<Rightarrow> failed w)
         | Some (PlainPayload v) \<Rightarrow>
             if truthy v
             then (case decodeStateAny E v of
                     Inl e \<Rightarrow> (Inl e, clearStateCorruption w)
                   | Inr merged \<Rightarrow> finish merged (clearStateCorruption w))
             else finish (mkState []) (clearStateCorruption w)
         | _ \<Rightarrow> finish (mkState []) (clearStateCorruption w))"

text \<open>
  \<open>unlockAndReconcile(passkey)\<close>, the \<open>UNLOCK_WITH_PASSKEY\<close> message, and the
  \<open>RETRY_IMPORT_KEY\<close> message: after a key has been installed the persisted state is
  reconciled.
\<close>

definition unlockAndReconcile :: "env \<Rightarrow> string \<Rightarrow> string \<Rightarrow> int \<Rightarrow> string \<Rightarrow> world
    \<Rightarrow> (exn + response) \<times> world" where
  "unlockAndReconcile E salt iv now passkey w =
     (case unlockWithPasskey E salt iv now passkey w of
        (RespOk, w1) \<Rightarrow>
          (case reconcilePendingStateAfterUnlock E w1 of
             (Inl e, w2) \<Rightarrow> (Inl e, w2)
           | (Inr u, w2) \<Rightarrow>
               if stateIsCorrupt w2 then (Inr (RespError ''corrupt-state''), w2)
               else (Inr RespOk, w2))
      | (result, w1) \<Rightarrow> (Inr result, w1))"

definition retryImportKey :: "env \<Rightarrow> world \<Rightarrow> (exn + response) \<times> world" where
  "retryImportKey E w =
     (case retryImportPlaintextKey E w of
        (RespOk, w1) \<Rightarrow>
          (case reconcilePendingStateAfterUnlock E w1 of
             (Inl e, w2) \<Rightarrow> (Inl e, w2)
           | (Inr u, w2) \<Rightarrow> (Inr RespOk, w2))
      | (result, w1) \<Rightarrow> (Inr result, w1))"

text \<open>\<open>resetEncryption\<close>; the freshly generated key and the clock are arguments.\<close>

definition resetEncryption :: "env \<Rightarrow> cryptokey \<Rightarrow> int \<Rightarrow> world \<Rightarrow> (exn + response) \<times> world" where
  "resetEncryption E newKey now w =
     (let w1 = clearSessionKey w;
          w2 = clearKeyRecords w1;
          w3 = clearStateCorruption w2;
          w4 = clearSnapshotDetailsCache w3;
          w5 = w4\<lparr>cachedState := JNull\<rparr>;
          w6 = w5\<lparr>localState := None, localBackups := None\<rparr>;
          w7 = clearLegacyPendingState w6;
          settings = ensureSettings w7;
          w8 = snd (generateAndPersistDataKey newKey now (enc_cloudBackupEnabled settings) w7);
          w9 = w8\<lparr>cachedState := mkState []\<rparr>
      in case saveState E (cachedState w9) w9 of
           (Inl e, w10) \<Rightarrow> (Inl e, w10)
         | (Inr u, w10) \<Rightarrow> (Inr RespOk, w10))"

section \<open>The resume-token flow (\<open>unsuspend-token-flow.js\<close>)\<close>

text \<open>
  \<open>processUnsuspendTokenMessage\<close> with its collaborators bound as the
  \<open>UNSUSPEND_TOKEN\<close> case of \<open>handleMessage\<close> binds them. Messages are handled one at
  a time here, so \<open>withStateLock\<close> finds the lock free and runs its callback. The
  state that \<open>loadState\<close> returns is the cached object, so a write to it is a write
  to \<open>cachedState\<close>. In every state the program makes, \<open>suspendedTabs\<close> is an
  object and its entries are objects; a property cannot be written to a primitive,
  which throws in module code. An array with a named property has no representation
  here, so an entry that is an array is treated like a primitive, although the engine
  would let the write through; the results below are about entries that are objects.

  \<open>tabsApi\<close> stands for the \<open>chrome.tabs\<close> call inside \<open>resumeSuspendedTab\<close>:
  whether it succeeded, and the world once it has returned (other handlers may have run
  meanwhile). \<open>nowv\<close> is the clock reading.
\<close>

definition tokenExpired :: "env \<Rightarrow> jsnum \<Rightarrow> jsval \<Rightarrow> jsnum \<Rightarrow> exn + bool" where
  "tokenExpired E nowv issuedAt tokenTtlMs =
     (if truthy (JNum tokenTtlMs) \<and> truthy issuedAt
      then bindE (Number E issuedAt) (\<lambda>i. Inr (numGreater (numMinus nowv i) tokenTtlMs))
      else Inr False)"

text \<open>The state after a write to the entry stored under \<open>key\<close> (the entry object
  is the one inside the state), and \<open>delete state.suspendedTabs?.[key]\<close>.\<close>

definition putTab :: "string \<Rightarrow> jsval \<Rightarrow> jsval \<Rightarrow> jsval" where
  "putTab key entry state =
     setProp ''suspendedTabs'' (setProp key entry (getProp state ''suspendedTabs'')) state"

definition deleteTab :: "string \<Rightarrow> jsval \<Rightarrow> jsval" where
  "deleteTab key state =
     (case getProp state ''suspendedTabs'' of
        JObj tabs \<Rightarrow> setProp ''suspendedTabs'' (JObj (AList.delete key tabs)) state
      | _ \<Rightarrow> state)"

datatype prepared = Reserved jsval | Rejected response

definition prepareResult :: "env \<Rightarrow> jsnum \<Rightarrow> jsnum \<Rightarrow> jsval \<Rightarrow> jsnum \<Rightarrow> world
    \<Rightarrow> (exn + prepared) \<times> world" where
  "prepareResult E nowv tabId token tokenTtlMs w =
     (if \<not> stateIsWritable w then (Inr (Rejected (lockedMutationResponse False w)), w)
      else
        (case loadState E w of
           (Inl e, w1) \<Rightarrow> (Inl e, w1)
         | (Inr state, w1) \<Rightarrow>
             if \<not> truthy state then (Inr (Rejected (lockedMutationResponse False w1)), w1)
             else
               let key = numberToString E tabId;
                   entry = getProp (getProp state ''suspendedTabs'') key
               in if \<not> truthy entry \<or> \<not> strictEq (getProp entry ''token'') token
                  then (Inr (Rejected (RespError ''invalid-token'')), w1)
                  else if truthy (getProp entry ''tokenUsed'')
                  then (Inr (Rejected (RespError ''used'')), w1)
                  else
                    let issuedAt = orElse (getProp entry ''tokenIssuedAt'')
                                          (getProp entry ''suspendedAt'')
                    in (case tokenExpired E nowv issuedAt tokenTtlMs of
                          Inl e \<Rightarrow> (Inl e, w1)
                        | Inr True \<Rightarrow> (Inr (Rejected (RespError ''expired'')), w1)
                        | Inr False \<Rightarrow>
                            (case entry of
                               JObj props \<Rightarrow>
                                 (let used = setProp ''tokenUsed'' (JBool True) entry;
                                      state1 = putTab key used state;
                                      w2 = w1\<lparr>cachedState := state1\<rparr>
                                  in case saveState E state1 w2 of
                                       (Inl e, w3) \<Rightarrow> (Inl e, w3)
                                     | (Inr u, w3) \<Rightarrow> (Inr (Reserved used), w3))
                             | _ \<Rightarrow> (Inl TypeError, w1)))))"

definition resumeSuspendedTab :: "(jsnum \<Rightarrow> jsval \<Rightarrow> world \<Rightarrow> bool \<times> world)
    \<Rightarrow> jsnum \<Rightarrow> jsval \<Rightarrow> world \<Rightarrow> bool \<times> world" where
  "resumeSuspendedTab tabsApi tabId metadata w =
     (if \<not> truthy metadata then (False, w) else tabsApi tabId metadata w)"

definition finalizeResult :: "env \<Rightarrow> jsnum \<Rightarrow> world \<Rightarrow> (exn + response) \<times> world" where
  "finalizeResult E tabId w =
     (if \<not> stateIsWritable w then (Inr (lockedMutationResponse False w), w)
      else
        (case loadState E w of
           (Inl e, w1) \<Rightarrow> (Inl e, w1)
         | (Inr state, w1) \<Rightarrow>
             if \<not> truthy state then (Inr (lockedMutationResponse False w1), w1)
             else
               (let state1 = deleteTab (numberToString E tabId) state;
                    w2 = w1\<lparr>cachedState := state1\<rparr>
                in (case saveState E state1 w2 of
                      (Inl e, w3) \<Rightarrow> (Inl e, w3)
                    | (Inr u, w3) \<Rightarrow> (Inr RespOk, w3)))))"

definition processUnsuspendTokenMessage :: "env \<Rightarrow> (jsnum \<Rightarrow> jsval \<Rightarrow> world \<Rightarrow> bool \<times> world)
    \<Rightarrow> jsnum \<Rightarrow> jsnum \<Rightarrow> jsval \<Rightarrow> jsnum \<Rightarrow> world \<Rightarrow> (exn + response) \<times> world" where
  "processUnsuspendTokenMessage E tabsApi nowv tabId token tokenTtlMs w =
     (if \<not> stateIsWritable w then (Inr (lockedMutationResponse False w), w)
      else
        (case prepareResult E nowv tabId token tokenTtlMs w of
           (Inl e, w1) \<Rightarrow> (Inl e, w1)
         | (Inr (Rejected r), w1) \<Rightarrow> (Inr r, w1)
         | (Inr (Reserved entry), w1) \<Rightarrow>
             (case resumeSuspendedTab tabsApi tabId entry w1 of
                (False, w2) \<Rightarrow> (Inr (RespError ''resume-failed''), w2)
              | (True, w2) \<Rightarrow> finalizeResult E tabId w2)))"

section \<open>Events\<close>

text \<open>
  What can happen to the state store between two points in time, as far as the model
  goes: the operations a lock-guarded mutator makes (\<open>loadState\<close>, \<open>saveState\<close>), a
  resume-token message, a reconciliation, a change of the cloud-backup setting, a
  \<open>chrome.storage.onChanged\<close> notification, an \<open>UNLOCK_WITH_PASSKEY\<close> message and a
  \<open>RETRY_IMPORT_KEY\<close> message. A list of events is performed from left to right.
\<close>

datatype action =
    DoLoadState
  | DoSaveState jsval
  | DoUnsuspendToken "jsnum \<Rightarrow> jsval \<Rightarrow> world \<Rightarrow> bool \<times> world" jsnum jsnum jsval jsnum
  | DoReconcile
  | DoSetCloudBackup int bool
  | DoStorageChanged string bool
  | DoUnlock string string int string
  | DoRetryImport

fun perform :: "env \<Rightarrow> action \<Rightarrow> world \<Rightarrow> world" where
  "perform E DoLoadState w = snd (loadState E w)"
| "perform E (DoSaveState state) w = snd (saveState E state w)"
| "perform E (DoUnsuspendToken tabsApi nowv tabId token tokenTtlMs) w =
     snd (processUnsuspendTokenMessage E tabsApi nowv tabId token tokenTtlMs w)"
| "perform E DoReconcile w = snd (reconcilePendingStateAfterUnlock E w)"
| "perform E (DoSetCloudBackup now enabled) w = snd (setCloudBackupEnabled now enabled w)"
| "perform E (DoStorageChanged areaName stateKeyChanged) w =
     handleStorageChanged areaName stateKeyChanged w"
| "perform E (DoUnlock salt iv now passkey) w = snd (unlockAndReconcile E salt iv now passkey w)"
| "perform E DoRetryImport w = snd (retryImportKey E w)"

fun performAll :: "env \<Rightarrow> action list \<Rightarrow> world \<Rightarrow> world" where
  "performAll E [] w = w"
| "performAll E (a # as) w = performAll E as (perform E a w)"

section \<open>The state lock (\<open>withStateLock\<close> in \<open>background.js\<close>)\<close>

text \<open>
  JavaScript runs one piece of code at a time. A handler runs until it reaches an
  \<open>await\<close>; the event loop then starts or resumes some other computation. An
  interleaving of concurrent handlers is the order in which the event loop starts and
  resumes them, and the code between two \<open>await\<close>s is one step.

  A callback given to \<open>withStateLock\<close> is the list of its segments, the pieces of
  code between its \<open>await\<close>s. A segment reads and writes the local variables of the
  callback and the shared state; it ends at the next \<open>await\<close>, returns, or throws.
\<close>

datatype ('l, 's) outcome = Next 'l 's | Returns 's | Throws 's

type_synonym ('l, 's) segment = "'l \<Rightarrow> 's \<Rightarrow> ('l, 's) outcome"

text \<open>
  A promise is identified by a number: 0 is the \<open>Promise.resolve()\<close> that
  \<open>stateLock\<close> holds at first, and the promise that the \<open>n\<close>-th call of
  \<open>withStateLock\<close> makes is \<open>n\<close>. A call is suspended at \<open>await prev\<close>
  (\<open>Queued\<close>), inside \<open>fn\<close> (\<open>Running\<close>), past \<open>fn\<close> with its \<open>finally\<close>
  block still to run (\<open>Settled\<close>), or done (\<open>Released\<close>). It remembers \<open>prev\<close>
  (\<open>awaited\<close>), the promise its \<open>release\<close> resolves (\<open>granted\<close>), the local
  variables and remaining segments of \<open>fn\<close>, and whether \<open>fn\<close> threw; \<open>vars0\<close>
  and \<open>callback\<close> keep \<open>fn\<close> as it was passed.
\<close>

datatype stage = Queued | Running | Settled | Released

record ('l, 's) invocation =
  awaited :: nat
  granted :: nat
  stage :: stage
  vars :: 'l
  todo :: "('l, 's) segment list"
  threw :: bool
  vars0 :: 'l
  callback :: "('l, 's) segment list"

text \<open>The module variable \<open>stateLock\<close>, the promises resolved so far, the calls in the
  order they were made, the shared state, and for every segment that has run the call
  it belongs to.\<close>

record ('l, 's) runtime =
  stateLock :: nat
  resolved :: "nat list"
  calls :: "('l, 's) invocation list"
  store :: 's
  trace :: "nat list"

definition initial :: "'s \<Rightarrow> ('l, 's) runtime" where
  "initial s = \<lparr>stateLock = 0, resolved = [0], calls = [], store = s, trace = []\<rparr>"

text \<open>What the event loop can do: a handler calls \<open>withStateLock(fn)\<close>, or the call
  with the given index is resumed.\<close>

datatype ('l, 's) event = Call 'l "('l, 's) segment list" | Resume nat

text \<open>The call itself runs up to \<open>await prev\<close>: it reads \<open>stateLock\<close> into
  \<open>prev\<close> and puts a new promise there.\<close>

definition enter :: "'l \<Rightarrow> ('l, 's) segment list \<Rightarrow> ('l, 's) runtime \<Rightarrow> ('l, 's) runtime" where
  "enter l fn r =
     (let release = Suc (length (calls r))
      in r\<lparr>calls := calls r @
              [\<lparr>awaited = stateLock r, granted = release, stage = Queued, vars = l, todo = fn,
                threw = False, vars0 = l, callback = fn\<rparr>],
           stateLock := release\<rparr>)"

text \<open>The next segment of \<open>fn\<close>. A callback with nothing left to run has returned.
  A return and a throw both leave the \<open>try\<close> block, so both come to \<open>finally\<close>.\<close>

definition runSegment :: "nat \<Rightarrow> ('l, 's) runtime \<Rightarrow> ('l, 's) runtime" where
  "runSegment i r =
     (let c = calls r ! i
      in case todo c of
           [] \<Rightarrow> r\<lparr>calls := (calls r)[i := c\<lparr>stage := Settled\<rparr>]\<rparr>
         | f # fs \<Rightarrow>
             (case f (vars c) (store r) of
                Next l s \<Rightarrow>
                  r\<lparr>calls := (calls r)[i := c\<lparr>stage := Running, vars := l, todo := fs\<rparr>],
                    store := s, trace := trace r @ [i]\<rparr>
              | Returns s \<Rightarrow>
                  r\<lparr>calls := (calls r)[i := c\<lparr>stage := Settled, todo := []\<rparr>],
                    store := s, trace := trace r @ [i]\<rparr>
              | Throws s \<Rightarrow>
                  r\<lparr>calls := (calls r)[i := c\<lparr>stage := Settled, todo := [], threw := True\<rparr>],
                    store := s, trace := trace r @ [i]\<rparr>))"

text \<open>
  Resuming a call. At \<open>await prev\<close> the call can only go on once \<open>prev\<close> is
  resolved; it then calls \<open>fn\<close>, which runs up to its first \<open>await\<close>. Inside
  \<open>fn\<close> the next segment runs. After \<open>fn\<close> the \<open>finally\<close> block calls
  \<open>release\<close>, which resolves the promise of this call.
\<close>

definition resume :: "nat \<Rightarrow> ('l, 's) runtime \<Rightarrow> ('l, 's) runtime option" where
  "resume i r =
     (if length (calls r) \<le> i then None
      else
        let c = calls r ! i
        in case stage c of
             Queued \<Rightarrow> if awaited c \<in> set (resolved r) then Some (runSegment i r) else None
           | Running \<Rightarrow> Some (runSegment i r)
           | Settled \<Rightarrow>
               Some (r\<lparr>calls := (calls r)[i := c\<lparr>stage := Released\<rparr>],
                       resolved := granted c # resolved r\<rparr>)
           | Released \<Rightarrow> None)"

fun step :: "('l, 's) event \<Rightarrow> ('l, 's) runtime \<Rightarrow> ('l, 's) runtime option" where
  "step (Call l fn) r = Some (enter l fn r)"
| "step (Resume i) r = resume i r"

fun run :: "('l, 's) event list \<Rightarrow> ('l, 's) runtime \<Rightarrow> ('l, 's) runtime option" where
  "run [] r = Some r"
| "run (e # es) r = (case step e r of None \<Rightarrow> None | Some r' \<Rightarrow> run es r')"

text \<open>A callback run from start to end with nothing in between, and the callbacks of a
  list of calls run one after the other.\<close>

fun runBody :: "('l, 's) segment list \<Rightarrow> 'l \<Rightarrow> 's \<Rightarrow> 's" where
  "runBody [] l s = s"
| "runBody (f # fs) l s =
     (case f l s of Next l' s' \<Rightarrow> runBody fs l' s' | Returns s' \<Rightarrow> s' | Throws s' \<Rightarrow> s')"

definition serial :: "('l, 's) invocation list \<Rightarrow> 's \<Rightarrow> 's" where
  "serial cs s = foldl (\<lambda>s c. runBody (callback c) (vars0 c) s) s cs"

section \<open>Predicates used in the statements\<close>

text \<open>An integer of magnitude at most \<open>2\<^sup>5\<^sup>3\<close>: such a number is a double.\<close>

definition safeInteger :: "rat \<Rightarrow> bool" where
  "safeInteger q = (of_int \<lfloor>q\<rfloor> = q \<and> \<bar>q\<bar> \<le> 2 ^ 53)"

text \<open>A computation that may throw returned normally.\<close>

definition succeeds :: "exn + 'a \<Rightarrow> bool" where
  "succeeds r = (case r of Inl _ \<Rightarrow> False | Inr _ \<Rightarrow> True)"

text \<open>A value that is a finite number.\<close>

definition finiteNum :: "jsval \<Rightarrow> bool" where
  "finiteNum v = (case v of JNum n \<Rightarrow> isFinite n | _ \<Rightarrow> False)"

text \<open>
  The persisted payload is one that \<open>loadState\<close> fails on: it carries a ciphertext
  and the \<open>try\<close> block (decryption, then decoding) throws.
\<close>

definition decryptFails :: "env \<Rightarrow> world \<Rightarrow> bool" where
  "decryptFails E w =
     (case localState w of
        Some (Encrypted k v) \<Rightarrow>
          \<not> succeeds (bindE (decryptPayload (Encrypted k v) w) (decodeStateAny E))
      | Some Garbled \<Rightarrow> True
      | _ \<Rightarrow> False)"

text \<open>
  The state is marked corrupt, the persisted payload and the snapshots are what they
  were in \<open>w0\<close>, and the payload still fails under the key now in memory.
\<close>

definition stuck :: "env \<Rightarrow> world \<Rightarrow> world \<Rightarrow> bool" where
  "stuck E w0 w = (stateCorruptionReason w = Some ''corrupt-state''
     \<and> localState w = localState w0 \<and> localBackups w = localBackups w0
     \<and> decryptFails E w)"

text \<open>A \<open>chrome.storage.onChanged\<close> notification that the persisted state changed.\<close>

fun notifiesStateChange :: "action \<Rightarrow> bool" where
  "notifiesStateChange (DoStorageChanged areaName stateKeyChanged) =
     (areaName = ''local'' \<and> stateKeyChanged)"
| "notifiesStateChange _ = False"

text \<open>
  The events after which the marker need not be there any more: a notification that
  the persisted state changed, and an unlock or a key import that succeeds and leaves
  in memory a key under which the persisted payload can be read. A run is quiet when
  none of its events is one of these at the time it happens.
\<close>

fun clears :: "env \<Rightarrow> action \<Rightarrow> world \<Rightarrow> bool" where
  "clears E (DoStorageChanged areaName stateKeyChanged) w =
     (areaName = ''local'' \<and> stateKeyChanged)"
| "clears E (DoUnlock salt iv now passkey) w =
     (fst (unlockWithPasskey E salt iv now passkey w) = RespOk
      \<and> \<not> decryptFails E (snd (unlockWithPasskey E salt iv now passkey w)))"
| "clears E DoRetryImport w =
     (fst (retryImportPlaintextKey E w) = RespOk
      \<and> \<not> decryptFails E (snd (retryImportPlaintextKey E w)))"
| "clears E _ w = False"

fun quietRun :: "env \<Rightarrow> action list \<Rightarrow> world \<Rightarrow> bool" where
  "quietRun E [] w = True"
| "quietRun E (a # as) w = (\<not> clears E a w \<and> quietRun E as (perform E a w))"

text \<open>What \<open>saveStateInternal\<close> puts into storage for a state it can encode.\<close>

definition storedPayload :: "env \<Rightarrow> jsval \<Rightarrow> world \<Rightarrow> payload option" where
  "storedPayload E state w =
     (case encodeStateV2 E state of
        Inl e \<Rightarrow> localState w
      | Inr encodedState \<Rightarrow>
          if enc_enabled (ensureSettings w)
          then (case cryptoKey w of
                  None \<Rightarrow> localState w
                | Some key \<Rightarrow> Some (Encrypted key encodedState))
          else Some (PlainPayload encodedState))"

text \<open>
  Valid states for the codec. An item id is the decimal string of a positive integer:
  the string denotes that number and the number prints as that string. An entry is an
  object with a non-empty string \<open>url\<close> whose number fields, where present, hold
  primitive values (numbers in a typed state).
\<close>

definition validId :: "env \<Rightarrow> string \<Rightarrow> bool" where
  "validId E k =
     (case stringToNumber E k of
        Fin q \<Rightarrow> isInteger (Fin q) \<and> 0 < q \<and> numberToString E (Fin q) = k \<and> k \<noteq> ''__proto__''
      | _ \<Rightarrow> False)"

fun primitive :: "jsval \<Rightarrow> bool" where
  "primitive (JArr _) = False"
| "primitive (JObj _) = False"
| "primitive _ = True"

definition validEntry :: "jsval \<Rightarrow> bool" where
  "validEntry e =
     (truthy e \<and> typeofObject e \<and> typeofString (getProp e ''url'') \<and> truthy (getProp e ''url'')
      \<and> primitive (getProp e ''windowId'') \<and> primitive (getProp e ''suspendedAt'')
      \<and> primitive (getProp e ''tokenIssuedAt''))"

text \<open>The entry \<open>normalizeEntry\<close> makes of an entry, and the \<open>suspendedTabs\<close>
  object that results from storing the normal form of every entry of a list in turn.\<close>

definition canonical :: "env \<Rightarrow> jsval \<Rightarrow> jsval" where
  "canonical E e = (case normalizeEntry E e of Inr n \<Rightarrow> n | Inl _ \<Rightarrow> JNull)"

fun storeAll :: "env \<Rightarrow> (string \<times> jsval) list \<Rightarrow> (string \<times> jsval) list
    \<Rightarrow> (string \<times> jsval) list" where
  "storeAll E [] acc = acc"
| "storeAll E ((k, e) # es) acc = storeAll E es (objAssign k (canonical E e) acc)"

text \<open>
  The state lock. A call holds the lock while it is inside \<open>fn\<close> or has not run its
  \<open>finally\<close> block yet. What a call still has to do to the shared state is
  \<open>pending\<close>. The remaining definitions are the parts of the invariant of the
  promise chain: every call waits for the promise of the call before it and exactly the
  finished calls have resolved theirs; a call that has started has only finished calls
  before it; a call that has not started still has its whole callback; segments ran in
  the order of the calls; and finishing the calls in order gives what running the
  callbacks one after the other gives. It is the turn of a call when all calls before it
  are finished and no later call has started.
\<close>

definition holding :: "('l, 's) invocation \<Rightarrow> bool" where
  "holding c = (stage c = Running \<or> stage c = Settled)"

definition pending :: "('l, 's) invocation \<Rightarrow> 's \<Rightarrow> 's" where
  "pending c s = (if stage c = Queued \<or> stage c = Running then runBody (todo c) (vars c) s else s)"

definition chained :: "('l, 's) runtime \<Rightarrow> bool" where
  "chained r =
     (stateLock r = length (calls r)
      \<and> (\<forall>i < length (calls r). awaited (calls r ! i) = i \<and> granted (calls r ! i) = Suc i)
      \<and> (\<forall>p. p \<in> set (resolved r) \<longleftrightarrow>
            p = 0 \<or> (\<exists>i < length (calls r). p = Suc i \<and> stage (calls r ! i) = Released)))"

definition ordered :: "('l, 's) runtime \<Rightarrow> bool" where
  "ordered r =
     (\<forall>i j. i < j \<and> j < length (calls r) \<and> stage (calls r ! j) \<noteq> Queued
        \<longrightarrow> stage (calls r ! i) = Released)"

definition untouched :: "('l, 's) runtime \<Rightarrow> bool" where
  "untouched r =
     (\<forall>i < length (calls r). stage (calls r ! i) = Queued
        \<longrightarrow> todo (calls r ! i) = callback (calls r ! i) \<and> vars (calls r ! i) = vars0 (calls r ! i))"

definition traced :: "('l, 's) runtime \<Rightarrow> bool" where
  "traced r =
     (sorted (trace r)
      \<and> (\<forall>j \<in> set (trace r). j < length (calls r) \<and> stage (calls r ! j) \<noteq> Queued))"

definition agrees :: "'s \<Rightarrow> ('l, 's) runtime \<Rightarrow> bool" where
  "agrees s0 r = (foldl (\<lambda>s c. pending c s) (store r) (calls r) = serial (calls r) s0)"

definition consistent :: "'s \<Rightarrow> ('l, 's) runtime \<Rightarrow> bool" where
  "consistent s0 r = (chained r \<and> ordered r \<and> untouched r \<and> traced r \<and> agrees s0 r)"

definition turn :: "('l, 's) runtime \<Rightarrow> nat \<Rightarrow> bool" where
  "turn r i =
     ((\<forall>j < i. stage (calls r ! j) = Released)
      \<and> (\<forall>j. i < j \<and> j < length (calls r) \<longrightarrow> stage (calls r ! j) = Queued))"

section \<open>Sample data\<close>

text \<open>
  A concrete environment for evaluating the model: decimal digit strings and the
  natural numbers they denote, a key derivation whose result is the iteration count
  itself (so two counts give the same wrapping key only when they are equal), and a
  wrapped key that was wrapped under 1000 iterations.
\<close>

definition digitChar :: "nat \<Rightarrow> char" where
  "digitChar d = ''0123456789'' ! d"

fun position :: "char \<Rightarrow> string \<Rightarrow> nat \<Rightarrow> nat option" where
  "position c [] i = None"
| "position c (d # ds) i = (if c = d then Some i else position c ds (Suc i))"

definition digitVal :: "char \<Rightarrow> nat option" where
  "digitVal c = position c ''0123456789'' 0"

function natToDec :: "nat \<Rightarrow> string" where
  "natToDec n = (if n < 10 then [digitChar n] else natToDec (n div 10) @ [digitChar (n mod 10)])"
  by pat_completeness auto
termination
  by (relation "measure id") auto

fun decToNat :: "string \<Rightarrow> nat \<Rightarrow> nat option" where
  "decToNat [] acc = Some acc"
| "decToNat (c # cs) acc =
     (case digitVal c of None \<Rightarrow> None | Some d \<Rightarrow> decToNat cs (10 * acc + d))"

definition decimalEnv :: env where
  "decimalEnv =
     \<lparr>stringToNumber = (\<lambda>s. if s = [] then Fin 0
          else (case decToNat s 0 of Some n \<Rightarrow> Fin (of_nat n) | None \<Rightarrow> NaN)),
      numberToString = (\<lambda>n. case n of
            Fin q \<Rightarrow> if 0 \<le> q \<and> of_int \<lfloor>q\<rfloor> = q then natToDec (nat \<lfloor>q\<rfloor>) else ''NaN''
          | _ \<Rightarrow> ''NaN''),
      defaultIterations = 150000,
      pbkdf2 = (\<lambda>passkey salt n. n),
      aesUnwrap = (\<lambda>k iv e. if k = 1000 then Some 7 else None),
      base64Length = (\<lambda>s. if s = ''salt'' then Some 16 else if s = ''iv'' then Some 12 else None),
      aesWrap = (\<lambda>k iv key. ''rewrapped''),
      importKey = (\<lambda>b64. if b64 = 0 then None else Some b64)\<rparr>"

definition weakRecord :: keyrec where
  "weakRecord = \<lparr>usingPasskey = True, dataKey = None, encryptedKey = Some ''wrapped'',
     keySalt = Some ''salt'', keyIV = Some ''iv'', iterations = Some 1000,
     cloudBackupEnabled = False, keyVersion = 1, updatedAt = 0\<rparr>"

text \<open>The world of a process that has just started and has read nothing yet, and the
  same world with a data key in memory.\<close>

definition freshWorld :: world where
  "freshWorld = \<lparr>cryptoKey = None, encryptionLocked = False, encryptionLockReason = None,
     cachedState = JNull, stateCorruptionReason = None, snapshotDetailsCache = [],
     localState = None, localBackups = None, localKeyRecord = None,
     localSettings = \<lparr>enc_enabled = True, enc_cloudBackupEnabled = False,
       enc_iterations = Some 150000\<rparr>,
     syncKeyRecord = None, sessionCryptoKey = None, sessionPendingState = None\<rparr>"

definition unlockedWorld :: world where
  "unlockedWorld = freshWorld\<lparr>cryptoKey := Some 5\<rparr>"

definition lockedWorld :: world where
  "lockedWorld = freshWorld\<lparr>encryptionLocked := True,
     encryptionLockReason := Some ''passkey-required''\<rparr>"

text \<open>A parked tab with an unused token, issued at time 1000, in a writable world.\<close>

definition parkedProps :: "(string \<times> jsval) list" where
  "parkedProps =
     [(''url'', JStr ''https://example.org/''), (''title'', JStr ''Example''),
      (''windowId'', JNum (Fin 3)), (''suspendedAt'', JNum (Fin 1000)),
      (''method'', JStr ''page''), (''reason'', JStr ''manual''),
      (''favIconUrl'', JStr []), (''token'', JStr ''t1''),
      (''tokenIssuedAt'', JNum (Fin 1000)), (''tokenUsed'', JBool False)]"

definition parkedWorld :: world where
  "parkedWorld = unlockedWorld\<lparr>cachedState := mkState [(''1'', JObj parkedProps)]\<rparr>"

text \<open>
  The same tab with no timestamps (an entry that was stored without them decodes to
  zeros), the same tab parked at time 1, the entry of a tab that was parked again under
  a new token, and a resume action during which that happens.
\<close>

definition undatedProps :: "(string \<times> jsval) list" where
  "undatedProps =
     [(''url'', JStr ''https://example.org/''), (''title'', JStr ''Example''),
      (''windowId'', JNum (Fin 3)), (''suspendedAt'', JNum (Fin 0)),
      (''method'', JStr ''page''), (''reason'', JStr []),
      (''favIconUrl'', JStr []), (''token'', JStr ''t1''),
      (''tokenIssuedAt'', JNum (Fin 0)), (''tokenUsed'', JBool False)]"

definition undatedWorld :: world where
  "undatedWorld = unlockedWorld\<lparr>cachedState := mkState [(''1'', JObj undatedProps)]\<rparr>"

definition earlyProps :: "(string \<times> jsval) list" where
  "earlyProps =
     [(''url'', JStr ''https://example.org/''), (''title'', JStr ''Example''),
      (''windowId'', JNum (Fin 3)), (''suspendedAt'', JNum (Fin 1)),
      (''method'', JStr ''page''), (''reason'', JStr []),
      (''favIconUrl'', JStr []), (''token'', JStr ''t1''),
      (''tokenIssuedAt'', JNum (Fin 1)), (''tokenUsed'', JBool False)]"

definition earlyWorld :: world where
  "earlyWorld = unlockedWorld\<lparr>cachedState := mkState [(''1'', JObj earlyProps)]\<rparr>"

definition reparkedProps :: "(string \<times> jsval) list" where
  "reparkedProps =
     [(''url'', JStr ''https://example.org/''), (''title'', JStr ''Example''),
      (''windowId'', JNum (Fin 3)), (''suspendedAt'', JNum (Fin 1500)),
      (''method'', JStr ''page''), (''reason'', JStr ''auto''),
      (''favIconUrl'', JStr []), (''token'', JStr ''t2''),
      (''tokenIssuedAt'', JNum (Fin 1500)), (''tokenUsed'', JBool False)]"

definition reparkingApi :: "jsnum \<Rightarrow> jsval \<Rightarrow> world \<Rightarrow> bool \<times> world" where
  "reparkingApi tabId metadata w =
     (True, w\<lparr>cachedState := mkState [(''1'', JObj reparkedProps)]\<rparr>)"

text \<open>A resume action during which encryption gets locked.\<close>

definition lockingApi :: "jsnum \<Rightarrow> jsval \<Rightarrow> world \<Rightarrow> bool \<times> world" where
  "lockingApi tabId metadata w =
     (True, w\<lparr>encryptionLocked := True, encryptionLockReason := Some ''passkey-required''\<rparr>)"

text \<open>A world whose persisted state cannot be decrypted, and a world whose key
  record holds the data key in the clear.\<close>

definition garbledWorld :: world where
  "garbledWorld = unlockedWorld\<lparr>localState := Some Garbled, localBackups := Some (JArr [])\<rparr>"

definition plainKeyWorld :: world where
  "plainKeyWorld = unlockedWorld\<lparr>localKeyRecord :=
     Some \<lparr>usingPasskey = False, dataKey = Some 5, encryptedKey = None, keySalt = None,
           keyIV = None, iterations = None, cloudBackupEnabled = False, keyVersion = 1,
           updatedAt = 0\<rparr>\<rparr>"

text \<open>
  Worlds with the passkey-wrapped record above: one whose persisted payload is garbled,
  and one whose payload is the empty state encrypted under the wrapped key 7 while the
  key in memory is 5.
\<close>

definition wornWorld :: world where
  "wornWorld = garbledWorld\<lparr>localKeyRecord := Some weakRecord\<rparr>"

definition staleKeyWorld :: world where
  "staleKeyWorld = unlockedWorld\<lparr>
     localState := Some (Encrypted 7 (JObj [(''v'', JNum (Fin 2)), (''tabs'', JArr [])])),
     localKeyRecord := Some weakRecord\<rparr>"

text \<open>The same with a record that holds the key 7 in the clear.\<close>

definition staleImportWorld :: world where
  "staleImportWorld = unlockedWorld\<lparr>
     localState := Some (Encrypted 7 (JObj [(''v'', JNum (Fin 2)), (''tabs'', JArr [])])),
     localKeyRecord :=
       Some \<lparr>usingPasskey = False, dataKey = Some 7, encryptedKey = None, keySalt = None,
             keyIV = None, iterations = None, cloudBackupEnabled = False, keyVersion = 1,
             updatedAt = 0\<rparr>\<rparr>"

text \<open>The same world with the cloud-backup preference persisted as true.\<close>

definition prefTrueWorld :: world where
  "prefTrueWorld = plainKeyWorld\<lparr>localSettings :=
     \<lparr>enc_enabled = True, enc_cloudBackupEnabled = True, enc_iterations = Some 150000\<rparr>\<rparr>"

text \<open>A state with two tabs, stored out of order: a discarded one that has only a
  \<open>url\<close>, and the parked one.\<close>

definition plainProps :: "(string \<times> jsval) list" where
  "plainProps = [(''url'', JStr ''https://example.org/b'')]"

definition twoTabs :: "(string \<times> jsval) list" where
  "twoTabs = [(''2'', JObj plainProps), (''1'', JObj parkedProps)]"

text \<open>A legacy state whose only entry has an object with an own \<open>toString\<close>
  property where the window id should be, as \<open>JSON.parse\<close> can produce it.\<close>

definition oddState :: jsval where
  "oddState = mkState [(''7'', JObj [(''url'', JStr ''https://example.org/''),
     (''windowId'', JObj [(''toString'', JNum (Fin 1))])])]"

text \<open>
  Two kinds of callback over a counter: one reads the counter, waits, and writes the
  value it read plus one; the other throws. Three calls are made before any of them
  runs, and the event loop then resumes them.
\<close>

definition increment :: "(int, int) segment list" where
  "increment = [\<lambda>l s. Next s s, \<lambda>l s. Returns (l + 1)]"

definition failing :: "(int, int) segment list" where
  "failing = [\<lambda>l s. Throws s]"

definition busy :: "(int, int) event list" where
  "busy = [Call 0 increment, Call 0 failing, Call 0 increment,
           Resume 0, Resume 0, Resume 0, Resume 1, Resume 1, Resume 2, Resume 2, Resume 2]"

lemma decimalEnv_sel [simp]:
  "defaultIterations decimalEnv = 150000"
  "pbkdf2 decimalEnv passkey salt n = n"
  "aesUnwrap decimalEnv k iv e = (if k = 1000 then Some 7 else None)"
  "base64Length decimalEnv s =
     (if s = ''salt'' then Some 16 else if s = ''iv'' then Some 12 else None)"
  "aesWrap decimalEnv k iv key = ''rewrapped''"
  "importKey decimalEnv b64 = (if b64 = 0 then None else Some b64)"
  by (simp_all add: decimalEnv_def)

lemma decimalEnv_stringToNumber:
  "stringToNumber decimalEnv s =
     (if s = [] then Fin 0
      else (case decToNat s 0 of Some n \<Rightarrow> Fin (of_nat n) | None \<Rightarrow> NaN))"
  by (simp add: decimalEnv_def)

lemma decimalEnv_numberToString:
  "numberToString decimalEnv (Fin (of_nat n)) = natToDec n"
  by (simp add: decimalEnv_def)

section \<open>Facts about numbers\<close>

lemma bitLength_bounds:
  "0 < n \<Longrightarrow> 2 ^ (bitLength n - 1) \<le> n \<and> n < 2 ^ bitLength n"
proof (induction n rule: bitLength.induct)
  case (1 n)
  show ?case
  proof (cases "n div 2 \<le> 0")
    case True
    with 1 have "n = 1" by linarith
    then show ?thesis
      by (simp add: bitLength.simps [of 1] bitLength.simps [of 0])
  next
    case False
    then have pos: "0 < n div 2" by simp
    from 1 have n0: "\<not> n \<le> 0" by simp
    from 1(1) [OF n0 pos] have ih: "2 ^ (bitLength (n div 2) - 1) \<le> n div 2"
      "n div 2 < 2 ^ bitLength (n div 2)" by simp_all
    have bl: "bitLength n = Suc (bitLength (n div 2))"
      using n0 by (simp add: bitLength.simps [of n])
    have b1: "0 < bitLength (n div 2)"
      using pos by (simp add: bitLength.simps [of "n div 2"])
    have "(2::int) ^ (bitLength n - 1) = 2 * 2 ^ (bitLength (n div 2) - 1)"
      using bl b1 by (cases "bitLength (n div 2)") simp_all
    also have "\<dots> \<le> 2 * (n div 2)" using ih(1) by simp
    also have "\<dots> \<le> n" by simp
    finally have lo: "2 ^ (bitLength n - 1) \<le> n" .
    have "n < 2 * (n div 2) + 2" by presburger
    also have "\<dots> \<le> 2 * 2 ^ bitLength (n div 2)" using ih(2) by simp
    also have "\<dots> = 2 ^ bitLength n" using bl by simp
    finally have hi: "n < 2 ^ bitLength n" .
    from lo hi show ?thesis by simp
  qed
qed

lemma roundHalfEven_of_int: "roundHalfEven (of_int m) = m"
  by (simp add: roundHalfEven_def)

lemma bitLength_one: "bitLength 1 = 1"
  by (simp add: bitLength.simps [of 1] bitLength.simps [of 0])

lemma floorLog2_of_int:
  assumes "0 < z"
  shows "floorLog2 (of_int z) = int (bitLength z) - 1"
proof -
  from bitLength_bounds [OF assms] have lo: "2 ^ (bitLength z - 1) \<le> z" by simp
  have pos: "0 < bitLength z"
    using assms by (simp add: bitLength.simps [of z])
  then have k: "nat (int (bitLength z) - 1) = bitLength z - 1" by simp
  have "pow2 (int (bitLength z) - 1) = of_int (2 ^ (bitLength z - 1))"
    using pos by (simp add: pow2_def k)
  also have "\<dots> \<le> of_int z"
    using lo by (simp only: of_int_le_iff)
  finally have "pow2 (int (bitLength z) - 1) \<le> of_int z" .
  then show ?thesis
    by (simp add: floorLog2_def bitLength_one)
qed

lemma roundDouble_of_nat_int:
  assumes z: "0 < z" and le: "z \<le> 2 ^ 53"
  shows "of_int (roundHalfEven (of_int z / pow2 (max (floorLog2 (of_int z) - 52) (- 1074))))
           * pow2 (max (floorLog2 (of_int z) - 52) (- 1074)) = (of_int z :: rat)"
proof -
  let ?b = "bitLength z"
  from bitLength_bounds [OF z] have lo: "2 ^ (?b - 1) \<le> z" and hi: "z < 2 ^ ?b" by simp_all
  have pos: "0 < ?b"
    using z by (simp add: bitLength.simps [of z])
  have e: "max (floorLog2 (of_int z) - 52) (- 1074) = int ?b - 53"
    using pos by (simp add: floorLog2_of_int [OF z])
  have "(2::int) ^ (?b - 1) \<le> 2 ^ 53" using lo le by linarith
  then have "?b - 1 \<le> 53"
    by (simp only: power_increasing_iff [of "2::int"] one_less_numeral_iff semiring_norm)
  then have b54: "?b \<le> 54" by simp
  show ?thesis
  proof (cases "?b = 54")
    case True
    with lo le have zz: "z = 2 ^ 53" by simp
    have p2: "pow2 (int ?b - 53) = 2" using True by (simp add: pow2_def)
    have half: "(of_int z :: rat) / 2 = of_int (2 ^ 52)" unfolding zz by simp
    have "of_int (roundHalfEven (of_int z / pow2 (int ?b - 53))) * pow2 (int ?b - 53)
        = (of_int (roundHalfEven (of_int (2 ^ 52))) :: rat) * 2"
      unfolding p2 half ..
    also have "\<dots> = of_int (2 ^ 52) * 2"
      by (simp only: roundHalfEven_of_int)
    also have "\<dots> = of_int z" unfolding zz by simp
    finally show ?thesis unfolding e .
  next
    case False
    with b54 have b53: "?b \<le> 53" by simp
    define m where "m = 53 - ?b"
    have p: "pow2 (int ?b - 53) = 1 / 2 ^ m"
    proof (cases "?b = 53")
      case True
      then show ?thesis by (simp add: pow2_def m_def)
    next
      case False
      with b53 have "int ?b - 53 < 0" by simp
      moreover have "nat (53 - int ?b) = m" using b53 by (simp add: m_def)
      ultimately show ?thesis by (simp add: pow2_def)
    qed
    have "(of_int z :: rat) / (1 / 2 ^ m) = of_int (z * 2 ^ m)" by simp
    then have "of_int (roundHalfEven (of_int z / pow2 (int ?b - 53))) * pow2 (int ?b - 53)
        = (of_int (z * 2 ^ m) :: rat) * (1 / 2 ^ m)"
      unfolding p by (simp only: roundHalfEven_of_int)
    also have "\<dots> = of_int z" by simp
    finally show ?thesis unfolding e .
  qed
qed

lemma roundDouble_safe [simp]:
  assumes "safeInteger q"
  shows "roundDouble q = Fin q"
proof (cases "q = 0")
  case True
  then show ?thesis by (simp add: roundDouble_def)
next
  case False
  from assms have int: "of_int \<lfloor>q\<rfloor> = q" and le: "\<bar>q\<bar> \<le> 2 ^ 53"
    by (simp_all add: safeInteger_def)
  define z where "z = \<bar>\<lfloor>q\<rfloor>\<bar>"
  have a: "\<bar>q\<bar> = of_int z"
    unfolding z_def using int by (metis of_int_abs)
  have zpos: "0 < z" using False a by simp
  have "(of_int z :: rat) \<le> of_int (2 ^ 53)" using le a by simp
  then have zle: "z \<le> 2 ^ 53" by (simp only: of_int_le_iff)
  have r: "of_int (roundHalfEven (\<bar>q\<bar> / pow2 (max (floorLog2 \<bar>q\<bar> - 52) (- 1074))))
           * pow2 (max (floorLog2 \<bar>q\<bar> - 52) (- 1074)) = \<bar>q\<bar>"
    unfolding a by (rule roundDouble_of_nat_int [OF zpos zle])
  have small: "\<not> pow2 1024 \<le> \<bar>q\<bar>"
  proof -
    have "\<bar>q\<bar> \<le> 2 ^ 53" by (rule le)
    also have "(2::rat) ^ 53 < 2 ^ 1024" by (rule power_strict_increasing) simp_all
    finally show ?thesis by (simp add: pow2_def)
  qed
  have "roundDouble q = Fin (if 0 < q then \<bar>q\<bar> else - \<bar>q\<bar>)"
    by (simp only: roundDouble_def Let_def False if_False r small)
  also have "\<dots> = Fin q" by simp
  finally show ?thesis .
qed

lemma numMinus_safe [simp]:
  "safeInteger (a - b) \<Longrightarrow> numMinus (Fin a) (Fin b) = Fin (a - b)"
  by (simp add: roundDouble_safe)

text \<open>Beyond \<open>2\<^sup>5\<^sup>3\<close> the difference is rounded: \<open>(2\<^sup>5\<^sup>3 + 2) - 1\<close> is \<open>2\<^sup>5\<^sup>3\<close>.\<close>

lemma numMinus_rounds:
  "numMinus (Fin 9007199254740994) (Fin 1) = Fin 9007199254740992"
  by code_simp

lemma safeInteger_numeral [simp]:
  "safeInteger (numeral n) = (numeral n \<le> (2::rat) ^ 53)"
  "safeInteger 0"
  "safeInteger 1"
  by (simp_all add: safeInteger_def)

section \<open>Facts about the codec\<close>

lemma bindE_simps [simp]:
  "bindE (Inl e) f = Inl e"
  "bindE (Inr x) f = f x"
  by (simp_all add: bindE_def)

lemma succeeds_simps [simp]:
  "succeeds (Inl e) = False"
  "succeeds (Inr x) = True"
  by (simp_all add: succeeds_def)

lemma succeeds_bindE:
  "succeeds (bindE m f) = (\<exists>x. m = Inr x \<and> succeeds (f x))"
  by (cases m) auto

lemma toFiniteNumber_JNum [simp]:
  "toFiniteNumber E (JNum n) fb = Inr (if isFinite n then JNum n else fb)"
  by (simp add: toFiniteNumber_def)

lemma decodeMethod_cases:
  "fb = ''page'' \<or> fb = ''discard'' \<Longrightarrow>
   decodeMethod v fb = ''page'' \<or> decodeMethod v fb = ''discard''"
  by (auto simp: decodeMethod_def)

lemma stringOrEmpty_str [simp]: "typeofString (stringOrEmpty v)"
  by (cases v) (simp_all add: stringOrEmpty_def)

lemma finiteNum_toFinite:
  "toFiniteNumber E v fb = Inr r \<Longrightarrow> finiteNum fb \<Longrightarrow> finiteNum r"
  by (auto simp: toFiniteNumber_def finiteNum_def split: sum.splits if_splits)

text \<open>The shape of every entry \<open>normalizeEntry\<close> returns.\<close>

lemma normalizeEntry_shape:
  assumes "normalizeEntry E e = Inr n" and "truthy n"
  shows "\<exists>u t w s m r f rest.
          n = JObj ([(''url'', JStr u), (''title'', t), (''windowId'', w),
                     (''suspendedAt'', s), (''method'', JStr m), (''reason'', r),
                     (''favIconUrl'', f)] @ rest)
          \<and> u \<noteq> [] \<and> typeofString t \<and> finiteNum w \<and> finiteNum s
          \<and> typeofString r \<and> typeofString f
          \<and> ((m = ''discard'' \<and> rest = []) \<or>
              (m = ''page'' \<and> (\<exists>tk ti b.
                   rest = [(''token'', tk), (''tokenIssuedAt'', ti), (''tokenUsed'', JBool b)]
                   \<and> typeofString tk \<and> finiteNum ti)))"
proof -
  from assms have g: "truthy e" "typeofObject e" "typeofString (getProp e ''url'')"
      "truthy (getProp e ''url'')"
    by (auto simp: normalizeEntry_def split: if_splits)
  then obtain u where u: "getProp e ''url'' = JStr u" "u \<noteq> []"
    by (cases "getProp e ''url''") auto
  let ?m = "decodeMethod (getProp e ''method'')
              (if truthy (orElse (getProp e ''token'') (getProp e ''tokenIssuedAt''))
               then ''page'' else ''discard'')"
  have m: "?m = ''page'' \<or> ?m = ''discard''"
    by (rule decodeMethod_cases) simp
  from assms(1) g obtain w
    where w: "toFiniteNumber E (getProp e ''windowId'') (JNum (Fin 0)) = Inr w"
    by (auto simp: normalizeEntry_def Let_def bindE_def split: sum.splits)
  from assms(1) g w obtain s
    where s: "toFiniteNumber E (getProp e ''suspendedAt'') (JNum (Fin 0)) = Inr s"
    by (auto simp: normalizeEntry_def Let_def bindE_def split: sum.splits)
  have fw: "finiteNum w"
    using finiteNum_toFinite [OF w] by (simp add: finiteNum_def isFinite_def)
  have fs: "finiteNum s"
    using finiteNum_toFinite [OF s] by (simp add: finiteNum_def isFinite_def)
  show ?thesis
  proof (cases "?m = ''page''")
    case True
    with assms(1) g w s obtain ti
      where ti: "toFiniteNumber E (getProp e ''tokenIssuedAt'') s = Inr ti"
        and n: "n = JObj ([(''url'', getProp e ''url''),
          (''title'', stringOrEmpty (getProp e ''title'')),
          (''windowId'', w), (''suspendedAt'', s), (''method'', JStr ?m),
          (''reason'', stringOrEmpty (getProp e ''reason'')),
          (''favIconUrl'', stringOrEmpty (getProp e ''favIconUrl''))] @
          [(''token'', stringOrEmpty (getProp e ''token'')), (''tokenIssuedAt'', ti),
           (''tokenUsed'', JBool (truthy (getProp e ''tokenUsed'')))])"
      by (auto simp: normalizeEntry_def Let_def bindE_def split: sum.splits)
    have "finiteNum ti" using finiteNum_toFinite [OF ti fs] .
    with n u fw fs True show ?thesis by simp
  next
    case False
    with m have d: "?m = ''discard''" by simp
    with assms(1) g w s have n: "n = JObj ([(''url'', getProp e ''url''),
          (''title'', stringOrEmpty (getProp e ''title'')),
          (''windowId'', w), (''suspendedAt'', s), (''method'', JStr ?m),
          (''reason'', stringOrEmpty (getProp e ''reason'')),
          (''favIconUrl'', stringOrEmpty (getProp e ''favIconUrl''))] @ [])"
      by (auto simp: normalizeEntry_def Let_def bindE_def split: sum.splits)
    with u fw fs d show ?thesis by simp
  qed
qed

lemma finiteNum_JNum: "finiteNum v \<Longrightarrow> \<exists>n. v = JNum n \<and> isFinite n"
  by (cases v) (auto simp: finiteNum_def)

lemma encodeTuple_normalized:
  assumes "normalizeEntry E e = Inr n" and "truthy n"
  shows "succeeds (encodeTuple E k n)"
proof -
  from normalizeEntry_shape [OF assms] obtain u t w s m r f rest where
    n: "n = JObj ([(''url'', JStr u), (''title'', t), (''windowId'', w),
                     (''suspendedAt'', s), (''method'', JStr m), (''reason'', r),
                     (''favIconUrl'', f)] @ rest)"
    and fw: "finiteNum w" and fs: "finiteNum s"
    and rest: "(m = ''discard'' \<and> rest = []) \<or>
              (m = ''page'' \<and> (\<exists>tk ti b.
                   rest = [(''token'', tk), (''tokenIssuedAt'', ti), (''tokenUsed'', JBool b)]
                   \<and> typeofString tk \<and> finiteNum ti))"
    by blast
  from fw obtain wn where w: "w = JNum wn" using finiteNum_JNum by blast
  from fs obtain sn where s: "s = JNum sn" using finiteNum_JNum by blast
  from rest show ?thesis
  proof
    assume "m = ''discard'' \<and> rest = []"
    then show ?thesis using n w s
      by (simp add: encodeTuple_def Let_def decodeMethod_def METHOD_DISCARD_def)
  next
    assume "m = ''page'' \<and> (\<exists>tk ti b.
                   rest = [(''token'', tk), (''tokenIssuedAt'', ti), (''tokenUsed'', JBool b)]
                   \<and> typeofString tk \<and> finiteNum ti)"
    then obtain tk ti b where p: "m = ''page''"
      "rest = [(''token'', tk), (''tokenIssuedAt'', ti), (''tokenUsed'', JBool b)]" "finiteNum ti"
      by blast
    from p(3) obtain tn where "ti = JNum tn" using finiteNum_JNum by blast
    then show ?thesis using n w s p
      by (simp add: encodeTuple_def Let_def decodeMethod_def METHOD_DISCARD_def METHOD_PAGE_def)
  qed
qed

lemma encodeLoop_succeeds:
  "succeeds (encodeLoop E entries acc) = list_all (\<lambda>(k, e). succeeds (normalizeEntry E e)) entries"
proof (induction entries arbitrary: acc)
  case Nil
  then show ?case by simp
next
  case (Cons a entries)
  obtain k e where a: "a = (k, e)" by (cases a)
  show ?case
  proof (cases "normalizeEntry E e")
    case (Inl x)
    then show ?thesis using a by simp
  next
    case (Inr n)
    show ?thesis
    proof (cases "truthy n")
      case False
      then show ?thesis using a Inr Cons.IH by simp
    next
      case True
      from encodeTuple_normalized [OF Inr True, of k] obtain t where "encodeTuple E k n = Inr t"
        by (cases "encodeTuple E k n") auto
      then show ?thesis using a Inr True Cons.IH by simp
    qed
  qed
qed

lemma set_insertEntry: "set (insertEntry E a bs) = insert a (set bs)"
  by (induction bs) auto

lemma set_sortEntries [simp]: "set (sortEntries E xs) = set xs"
  by (induction xs) (simp_all add: sortEntries_def set_insertEntry)

lemma encodeStateV2_succeeds:
  "succeeds (encodeStateV2 E state) =
     (\<forall>(k, e) \<in> set (objectEntries E (orElse (getProp state ''suspendedTabs'') (JObj []))).
        succeeds (normalizeEntry E e))"
proof -
  have "succeeds (encodeStateV2 E state) =
     succeeds (encodeLoop E (sortEntries E
            (objectEntries E (orElse (getProp state ''suspendedTabs'') (JObj [])))) [])"
    by (simp add: encodeStateV2_def Let_def split: sum.splits)
  then show ?thesis
    by (simp add: encodeLoop_succeeds list_all_iff)
qed

section \<open>Facts about the state store\<close>

lemma stateWriteBlockedReason_cachedState [simp]:
  "stateWriteBlockedReason (w\<lparr>cachedState := s\<rparr>) = stateWriteBlockedReason w"
  by (simp add: stateWriteBlockedReason_def stateIsCorrupt_def stateLockReason_def
      stateIsLocked_def encryptionIsLocked_def hasCryptoKey_def encryptionReason_def)

lemma stateWriteBlockedReason_localState [simp]:
  "stateWriteBlockedReason (w\<lparr>localState := s\<rparr>) = stateWriteBlockedReason w"
  by (simp add: stateWriteBlockedReason_def stateIsCorrupt_def stateLockReason_def
      stateIsLocked_def encryptionIsLocked_def hasCryptoKey_def encryptionReason_def)

lemma blocked_reason_nonempty:
  "stateWriteBlockedReason w = Some reason \<Longrightarrow> reason \<noteq> []"
  by (auto simp: stateWriteBlockedReason_def orText_def split: if_splits option.splits)

lemma blocked_iff: "(stateWriteBlockedReason w \<noteq> None) = (stateIsCorrupt w \<or> stateIsLocked w)"
  by (simp add: stateWriteBlockedReason_def)

lemma getProp_setProp:
  "getProp (setProp k v (JObj ps)) k' = (if k' = k then v else getProp (JObj ps) k')"
  by (simp add: update_conv')

lemma getProp_delete:
  "getProp (JObj (AList.delete k ps)) k' = (if k' = k then JUndefined else getProp (JObj ps) k')"
  by (simp add: delete_conv')

lemma normalizeEntry_tokenUsed:
  "succeeds (normalizeEntry E (setProp ''tokenUsed'' v (JObj ps))) =
   succeeds (normalizeEntry E (JObj ps))"
  by (simp add: normalizeEntry_def Let_def update_conv' succeeds_bindE)

lemma writable_iff:
  "stateIsWritable w = (\<not> stateIsCorrupt w \<and> \<not> stateIsLocked w)"
  by (simp add: stateIsWritable_def stateWriteBlockedReason_def)

lemma stateIsWritable_upd [simp]:
  "stateIsWritable (w\<lparr>cachedState := s\<rparr>) = stateIsWritable w"
  "stateIsWritable (w\<lparr>localState := p\<rparr>) = stateIsWritable w"
  by (simp_all add: stateIsWritable_def)

lemma stateIsLocked_upd [simp]:
  "stateIsLocked (w\<lparr>cachedState := s\<rparr>) = stateIsLocked w"
  "stateIsLocked (w\<lparr>localState := p\<rparr>) = stateIsLocked w"
  by (simp_all add: stateIsLocked_def encryptionIsLocked_def hasCryptoKey_def)

lemma storedPayload_upd [simp]:
  "storedPayload E state (w\<lparr>cachedState := s\<rparr>) = storedPayload E state w"
  by (simp add: storedPayload_def ensureSettings_def split: sum.splits option.splits)

lemma saveState_ok:
  assumes "stateIsWritable w" and "succeeds (encodeStateV2 E state)"
  shows "saveState E state w =
           (Inr (), w\<lparr>cachedState := state, localState := storedPayload E state w\<rparr>)"
proof -
  from assms(1) have b: "stateWriteBlockedReason w = None"
    by (simp add: stateIsWritable_def)
  from assms(1) have k: "cryptoKey w \<noteq> None"
    by (auto simp: writable_iff stateIsLocked_def hasCryptoKey_def)
  from assms(2) obtain enc where enc: "encodeStateV2 E state = Inr enc"
    by (cases "encodeStateV2 E state") auto
  from k obtain key where key: "cryptoKey w = Some key" by auto
  show ?thesis
    using b enc key
    by (simp add: saveState_def saveStateInternal_def storedPayload_def encryptPayload_def
        ensureSettings_def Let_def)
qed

lemma loadState_cached:
  assumes "\<not> stateIsLocked w" and "truthy (cachedState w)"
  shows "loadState E w = (Inr (cachedState w), w)"
  using assms by (simp add: loadState_def)

lemma writable_truthy_load:
  assumes "stateIsWritable w" and "truthy (cachedState w)"
  shows "loadState E w = (Inr (cachedState w), w)"
  using assms by (simp add: loadState_cached writable_iff)

lemma set_alist_update: "set (AList.update k v al) \<subseteq> insert (k, v) (set al)"
  by (induction al) auto

lemma set_alist_delete: "set (AList.delete k al) \<subseteq> set al"
  by (induction al) auto

lemma putTab_JObj:
  "map_of sps ''suspendedTabs'' = Some (JObj tabs) \<Longrightarrow>
   putTab key entry (JObj sps) =
     JObj (AList.update ''suspendedTabs'' (JObj (AList.update key entry tabs)) sps)"
  by (simp add: putTab_def)

lemma deleteTab_JObj:
  "map_of sps ''suspendedTabs'' = Some (JObj tabs) \<Longrightarrow>
   deleteTab key (JObj sps) =
     JObj (AList.update ''suspendedTabs'' (JObj (AList.delete key tabs)) sps)"
  by (simp add: deleteTab_def)

lemma encodable_update:
  assumes enc: "succeeds (encodeStateV2 E (JObj sps))"
    and tabs: "map_of sps ''suspendedTabs'' = Some (JObj tabs)"
    and new: "succeeds (normalizeEntry E entry)"
  shows "succeeds (encodeStateV2 E (putTab key entry (JObj sps)))"
proof -
  have old: "\<forall>(k, e) \<in> set tabs. succeeds (normalizeEntry E e)"
    using enc tabs by (simp add: encodeStateV2_succeeds orElse_def)
  have sub: "set (AList.update key entry tabs) \<subseteq> insert (key, entry) (set tabs)"
    by (rule set_alist_update)
  show ?thesis
    using old new sub
    by (auto simp: encodeStateV2_succeeds putTab_JObj [OF tabs] orElse_def update_conv')
qed

lemma encodable_putTab:
  assumes enc: "succeeds (encodeStateV2 E (JObj sps))"
    and tabs: "map_of sps ''suspendedTabs'' = Some (JObj tabs)"
    and ent: "map_of tabs key = Some (JObj props)"
  shows "succeeds (encodeStateV2 E (putTab key (setProp ''tokenUsed'' v (JObj props)) (JObj sps)))"
proof -
  have old: "\<forall>(k, e) \<in> set tabs. succeeds (normalizeEntry E e)"
    using enc tabs by (simp add: encodeStateV2_succeeds orElse_def)
  have "succeeds (normalizeEntry E (JObj props))"
    using old ent by (auto dest: map_of_SomeD)
  then have new: "succeeds (normalizeEntry E (setProp ''tokenUsed'' v (JObj props)))"
    by (simp only: normalizeEntry_tokenUsed)
  show ?thesis
    by (rule encodable_update [OF enc tabs new])
qed

lemma encodable_deleteTab:
  assumes enc: "succeeds (encodeStateV2 E (JObj sps))"
    and tabs: "map_of sps ''suspendedTabs'' = Some (JObj tabs)"
  shows "succeeds (encodeStateV2 E (deleteTab key (JObj sps)))"
proof -
  have old: "\<forall>(k, e) \<in> set tabs. succeeds (normalizeEntry E e)"
    using enc tabs by (simp add: encodeStateV2_succeeds orElse_def)
  have sub: "set (AList.delete key tabs) \<subseteq> set tabs"
    by (rule set_alist_delete)
  show ?thesis
    using tabs old sub
    by (auto simp: encodeStateV2_succeeds deleteTab_JObj [OF tabs] orElse_def update_conv')
qed

lemma prepare_reserves:
  assumes wr: "stateIsWritable w"
    and st: "cachedState w = JObj sps"
    and tabs: "map_of sps ''suspendedTabs'' = Some (JObj tabs)"
    and ent: "map_of tabs (numberToString E tabId) = Some (JObj props)"
    and tok: "strictEq (getProp (JObj props) ''token'') token"
    and unused: "\<not> truthy (getProp (JObj props) ''tokenUsed'')"
    and fresh: "tokenExpired E nowv (orElse (getProp (JObj props) ''tokenIssuedAt'')
                  (getProp (JObj props) ''suspendedAt'')) ttl = Inr False"
    and enc: "succeeds (encodeStateV2 E (JObj sps))"
    and used: "used = setProp ''tokenUsed'' (JBool True) (JObj props)"
    and res: "reserved = putTab (numberToString E tabId) used (JObj sps)"
  shows "prepareResult E nowv tabId token ttl w =
           (Inr (Reserved used),
            w\<lparr>cachedState := reserved, localState := storedPayload E reserved w\<rparr>)"
proof -
  have load: "loadState E w = (Inr (JObj sps), w)"
    using writable_truthy_load [OF wr, of E] st by simp
  have entry: "getProp (getProp (JObj sps) ''suspendedTabs'') (numberToString E tabId) = JObj props"
    using tabs ent by simp
  have encr: "succeeds (encodeStateV2 E reserved)"
    unfolding res used by (rule encodable_putTab [OF enc tabs ent])
  have save: "saveState E reserved (w\<lparr>cachedState := reserved\<rparr>) =
      (Inr (), w\<lparr>cachedState := reserved, localState := storedPayload E reserved w\<rparr>)"
    using saveState_ok [of "w\<lparr>cachedState := reserved\<rparr>" E reserved] wr encr by simp
  show ?thesis
    unfolding prepareResult_def
    using wr load entry tok unused fresh save
    by (simp add: Let_def used [symmetric] res [symmetric] del: getProp.simps setProp.simps)
qed

lemma finalize_deletes:
  assumes wr: "stateIsWritable w"
    and st: "cachedState w = JObj sps"
    and tabs: "map_of sps ''suspendedTabs'' = Some (JObj tabs)"
    and enc: "succeeds (encodeStateV2 E (JObj sps))"
    and fin: "final = deleteTab (numberToString E tabId) (JObj sps)"
  shows "finalizeResult E tabId w =
           (Inr RespOk, w\<lparr>cachedState := final, localState := storedPayload E final w\<rparr>)"
proof -
  have load: "loadState E w = (Inr (JObj sps), w)"
    using writable_truthy_load [OF wr, of E] st by simp
  have encr: "succeeds (encodeStateV2 E final)"
    unfolding fin by (rule encodable_deleteTab [OF enc tabs])
  have save: "saveState E final (w\<lparr>cachedState := final\<rparr>) =
      (Inr (), w\<lparr>cachedState := final, localState := storedPayload E final w\<rparr>)"
    using saveState_ok [of "w\<lparr>cachedState := final\<rparr>" E final] wr encr by simp
  show ?thesis
    unfolding finalizeResult_def
    using wr load save
    by (simp add: Let_def fin [symmetric] del: getProp.simps setProp.simps)
qed

section \<open>Facts about the resume-token flow\<close>

lemma token_flow_contract:
  assumes wr: "stateIsWritable w"
    and st: "cachedState w = JObj sps"
    and tabs: "map_of sps ''suspendedTabs'' = Some (JObj tabs)"
    and key: "key = numberToString E tabId"
    and ent: "map_of tabs key = Some (JObj props)"
    and tok: "strictEq (getProp (JObj props) ''token'') token"
    and unused: "\<not> truthy (getProp (JObj props) ''tokenUsed'')"
    and fresh: "tokenExpired E nowv (orElse (getProp (JObj props) ''tokenIssuedAt'')
                  (getProp (JObj props) ''suspendedAt'')) ttl = Inr False"
    and enc: "succeeds (encodeStateV2 E (JObj sps))"
    and used: "used = setProp ''tokenUsed'' (JBool True) (JObj props)"
    and res: "reserved = putTab key used (JObj sps)"
    and wR: "wReserved = w\<lparr>cachedState := reserved, localState := storedPayload E reserved w\<rparr>"
    and fin: "final = deleteTab key reserved"
    and wD: "wDone = wReserved\<lparr>cachedState := final,
                localState := storedPayload E final wReserved\<rparr>"
  shows "processUnsuspendTokenMessage E (\<lambda>i m x. (True, x)) nowv tabId token ttl w
           = (Inr RespOk, wDone)
       \<and> getProp (getProp (cachedState wDone) ''suspendedTabs'') key = JUndefined
       \<and> processUnsuspendTokenMessage E api2 nowv2 tabId token ttl2 wDone
           = (Inr (RespError ''invalid-token''), wDone)
       \<and> processUnsuspendTokenMessage E (\<lambda>i m x. (False, x)) nowv tabId token ttl w
           = (Inr (RespError ''resume-failed''), wReserved)
       \<and> getProp (getProp (getProp (cachedState wReserved) ''suspendedTabs'') key) ''tokenUsed''
           = JBool True
       \<and> processUnsuspendTokenMessage E api2 nowv2 tabId token ttl2 wReserved
           = (Inr (RespError ''used''), wReserved)"
proof -
  let ?tabs1 = "AList.update key used tabs"
  let ?sps1 = "AList.update ''suspendedTabs'' (JObj ?tabs1) sps"
  have res_eq: "reserved = JObj ?sps1"
    unfolding res by (rule putTab_JObj [OF tabs])
  have tabs1: "map_of ?sps1 ''suspendedTabs'' = Some (JObj ?tabs1)"
    by (simp add: update_conv')
  have prep: "prepareResult E nowv tabId token ttl w = (Inr (Reserved used), wReserved)"
    unfolding wR
    by (rule prepare_reserves [OF wr st tabs ent [unfolded key] tok unused fresh enc used
          res [unfolded key]])
  have used_obj: "used = JObj (AList.update ''tokenUsed'' (JBool True) props)"
    by (simp add: used)
  have wrR: "stateIsWritable wReserved" using wr by (simp add: wR)
  have stR: "cachedState wReserved = JObj ?sps1" by (simp add: wR res_eq)
  have encR: "succeeds (encodeStateV2 E (JObj ?sps1))"
    using encodable_putTab [OF enc tabs ent, of "JBool True"] res_eq res used by simp
  have finz: "finalizeResult E tabId wReserved = (Inr RespOk, wDone)"
    unfolding wD
    by (rule finalize_deletes [OF wrR stR tabs1 encR]) (simp add: fin res_eq key)
  have c1: "processUnsuspendTokenMessage E (\<lambda>i m x. (True, x)) nowv tabId token ttl w
           = (Inr RespOk, wDone)"
    using wr prep finz by (simp add: processUnsuspendTokenMessage_def resumeSuspendedTab_def used_obj)
  have c4: "processUnsuspendTokenMessage E (\<lambda>i m x. (False, x)) nowv tabId token ttl w
           = (Inr (RespError ''resume-failed''), wReserved)"
    using wr prep by (simp add: processUnsuspendTokenMessage_def resumeSuspendedTab_def used_obj)
  have final_eq: "final = JObj (AList.update ''suspendedTabs'' (JObj (AList.delete key ?tabs1)) ?sps1)"
    unfolding fin res_eq by (rule deleteTab_JObj [OF tabs1])
  have c2: "getProp (getProp (cachedState wDone) ''suspendedTabs'') key = JUndefined"
    by (simp add: wD final_eq update_conv' delete_conv')
  have wrD: "stateIsWritable wDone" using wrR by (simp add: wD)
  have loadD: "loadState E wDone = (Inr final, wDone)"
    using writable_truthy_load [OF wrD, of E] by (simp add: wD final_eq)
  have tf: "truthy final" by (simp add: final_eq)
  have c2f: "getProp (getProp final ''suspendedTabs'') (numberToString E tabId) = JUndefined"
    by (simp add: final_eq update_conv' delete_conv' key)
  have c3: "processUnsuspendTokenMessage E api2 nowv2 tabId token ttl2 wDone
           = (Inr (RespError ''invalid-token''), wDone)"
    using wrD loadD c2f tf
    by (simp add: processUnsuspendTokenMessage_def prepareResult_def Let_def
        del: getProp.simps)
  have c5: "getProp (getProp (getProp (cachedState wReserved) ''suspendedTabs'') key) ''tokenUsed''
           = JBool True"
    by (simp add: stR update_conv' used_obj)
  have loadR: "loadState E wReserved = (Inr (JObj ?sps1), wReserved)"
    using writable_truthy_load [OF wrR, of E] by (simp add: stR)
  have entR: "getProp (getProp (JObj ?sps1) ''suspendedTabs'') (numberToString E tabId) = used"
    by (simp add: update_conv' key)
  have tokR: "strictEq (getProp used ''token'') token"
    using tok by (simp add: used_obj update_conv')
  have usedR: "truthy (getProp used ''tokenUsed'')"
    by (simp add: used_obj update_conv')
  have c6: "processUnsuspendTokenMessage E api2 nowv2 tabId token ttl2 wReserved
           = (Inr (RespError ''used''), wReserved)"
    using wrR loadR entR tokR usedR
    by (simp add: processUnsuspendTokenMessage_def prepareResult_def Let_def used_obj
        del: getProp.simps)
  from c1 c2 c3 c4 c5 c6 show ?thesis by blast
qed

lemma process_after_prepare:
  assumes "stateIsWritable w"
    and "prepareResult E nowv tabId token ttl w = (Inr (Reserved used), w1)"
    and "truthy used"
  shows "processUnsuspendTokenMessage E api nowv tabId token ttl w =
           (case api tabId used w1 of
              (False, w2) \<Rightarrow> (Inr (RespError ''resume-failed''), w2)
            | (True, w2) \<Rightarrow> finalizeResult E tabId w2)"
  using assms by (simp add: processUnsuspendTokenMessage_def resumeSuspendedTab_def)

lemma key_one: "numberToString decimalEnv (Fin 1) = ''1''"
  using decimalEnv_numberToString [of 1] by (simp add: digitChar_def)

lemma unlockedWorld_writable: "stateIsWritable (unlockedWorld\<lparr>cachedState := s\<rparr>)"
  by (simp add: stateIsWritable_def stateWriteBlockedReason_def stateIsCorrupt_def
      stateIsLocked_def encryptionIsLocked_def hasCryptoKey_def unlockedWorld_def freshWorld_def)

lemma parkedProps_get [simp]:
  "getProp (JObj parkedProps) ''url'' = JStr ''https://example.org/''"
  "getProp (JObj parkedProps) ''title'' = JStr ''Example''"
  "getProp (JObj parkedProps) ''windowId'' = JNum (Fin 3)"
  "getProp (JObj parkedProps) ''suspendedAt'' = JNum (Fin 1000)"
  "getProp (JObj parkedProps) ''method'' = JStr ''page''"
  "getProp (JObj parkedProps) ''reason'' = JStr ''manual''"
  "getProp (JObj parkedProps) ''favIconUrl'' = JStr []"
  "getProp (JObj parkedProps) ''token'' = JStr ''t1''"
  "getProp (JObj parkedProps) ''tokenIssuedAt'' = JNum (Fin 1000)"
  "getProp (JObj parkedProps) ''tokenUsed'' = JBool False"
  by (simp_all add: parkedProps_def)

lemma parkedEntry_normalizes: "succeeds (normalizeEntry decimalEnv (JObj parkedProps))"
  by (simp add: normalizeEntry_def Let_def isFinite_def del: getProp.simps)

lemma parkedState_encodes:
  "succeeds (encodeStateV2 decimalEnv (JObj [(''suspendedTabs'', JObj [(''1'', JObj parkedProps)])]))"
  by (simp add: encodeStateV2_succeeds orElse_def parkedEntry_normalizes)

lemma undatedProps_get [simp]:
  "getProp (JObj undatedProps) ''url'' = JStr ''https://example.org/''"
  "getProp (JObj undatedProps) ''title'' = JStr ''Example''"
  "getProp (JObj undatedProps) ''windowId'' = JNum (Fin 3)"
  "getProp (JObj undatedProps) ''suspendedAt'' = JNum (Fin 0)"
  "getProp (JObj undatedProps) ''method'' = JStr ''page''"
  "getProp (JObj undatedProps) ''reason'' = JStr []"
  "getProp (JObj undatedProps) ''favIconUrl'' = JStr []"
  "getProp (JObj undatedProps) ''token'' = JStr ''t1''"
  "getProp (JObj undatedProps) ''tokenIssuedAt'' = JNum (Fin 0)"
  "getProp (JObj undatedProps) ''tokenUsed'' = JBool False"
  by (simp_all add: undatedProps_def)

lemma earlyProps_get [simp]:
  "getProp (JObj earlyProps) ''url'' = JStr ''https://example.org/''"
  "getProp (JObj earlyProps) ''title'' = JStr ''Example''"
  "getProp (JObj earlyProps) ''windowId'' = JNum (Fin 3)"
  "getProp (JObj earlyProps) ''suspendedAt'' = JNum (Fin 1)"
  "getProp (JObj earlyProps) ''method'' = JStr ''page''"
  "getProp (JObj earlyProps) ''reason'' = JStr []"
  "getProp (JObj earlyProps) ''favIconUrl'' = JStr []"
  "getProp (JObj earlyProps) ''token'' = JStr ''t1''"
  "getProp (JObj earlyProps) ''tokenIssuedAt'' = JNum (Fin 1)"
  "getProp (JObj earlyProps) ''tokenUsed'' = JBool False"
  by (simp_all add: earlyProps_def)

lemma early_encodes:
  "succeeds (encodeStateV2 decimalEnv (JObj [(''suspendedTabs'', JObj [(''1'', JObj earlyProps)])]))"
proof -
  have "succeeds (normalizeEntry decimalEnv (JObj earlyProps))"
    by (simp add: normalizeEntry_def Let_def isFinite_def del: getProp.simps)
  then show ?thesis by (simp add: encodeStateV2_succeeds orElse_def)
qed

lemma reparkedProps_get [simp]:
  "getProp (JObj reparkedProps) ''url'' = JStr ''https://example.org/''"
  "getProp (JObj reparkedProps) ''title'' = JStr ''Example''"
  "getProp (JObj reparkedProps) ''windowId'' = JNum (Fin 3)"
  "getProp (JObj reparkedProps) ''suspendedAt'' = JNum (Fin 1500)"
  "getProp (JObj reparkedProps) ''method'' = JStr ''page''"
  "getProp (JObj reparkedProps) ''reason'' = JStr ''auto''"
  "getProp (JObj reparkedProps) ''favIconUrl'' = JStr []"
  "getProp (JObj reparkedProps) ''token'' = JStr ''t2''"
  "getProp (JObj reparkedProps) ''tokenIssuedAt'' = JNum (Fin 1500)"
  "getProp (JObj reparkedProps) ''tokenUsed'' = JBool False"
  by (simp_all add: reparkedProps_def)

lemma undated_encodes:
  "succeeds (encodeStateV2 decimalEnv (JObj [(''suspendedTabs'', JObj [(''1'', JObj undatedProps)])]))"
proof -
  have "succeeds (normalizeEntry decimalEnv (JObj undatedProps))"
    by (simp add: normalizeEntry_def Let_def isFinite_def del: getProp.simps)
  then show ?thesis by (simp add: encodeStateV2_succeeds orElse_def)
qed

lemma reparked_encodes:
  "succeeds (encodeStateV2 decimalEnv (JObj [(''suspendedTabs'', JObj [(''1'', JObj reparkedProps)])]))"
proof -
  have "succeeds (normalizeEntry decimalEnv (JObj reparkedProps))"
    by (simp add: normalizeEntry_def Let_def isFinite_def del: getProp.simps)
  then show ?thesis by (simp add: encodeStateV2_succeeds orElse_def)
qed

section \<open>Facts about corruption and reset\<close>

lemma decryptPayload_cong:
  "cryptoKey w = cryptoKey w' \<Longrightarrow> decryptPayload p w = decryptPayload p w'"
  by (simp add: decryptPayload_def)

lemma decryptFails_cong:
  "cryptoKey w = cryptoKey w' \<Longrightarrow> localState w = localState w' \<Longrightarrow>
   decryptFails E w = decryptFails E w'"
  by (simp add: decryptFails_def decryptPayload_def split: option.splits payload.splits)

lemma garbled_never_decrypts [simp]:
  "bindE (decryptPayload Garbled w) f = Inl (case cryptoKey w of
      None \<Rightarrow> Error ''Encryption key not available'' | Some k \<Rightarrow> Error ''OperationError'')"
  by (simp add: decryptPayload_def split: option.splits)

lemma encode_empty:
  "encodeStateV2 E (mkState []) = Inr (JObj [(''v'', JNum (Fin 2)), (''tabs'', JArr [])])"
  by (simp add: encodeStateV2_def mkState_def orElse_def sortEntries_def)

lemma persist_fields:
  "cryptoKey (snd (persistKeyRecord r w)) = cryptoKey w"
  "encryptionLocked (snd (persistKeyRecord r w)) = encryptionLocked w"
  "stateCorruptionReason (snd (persistKeyRecord r w)) = stateCorruptionReason w"
  "localState (snd (persistKeyRecord r w)) = localState w"
  "localBackups (snd (persistKeyRecord r w)) = localBackups w"
  "cachedState (snd (persistKeyRecord r w)) = cachedState w"
  "localSettings (snd (persistKeyRecord r w)) = localSettings w"
  "sessionCryptoKey (snd (persistKeyRecord r w)) = sessionCryptoKey w"
  "syncKeyRecord (snd (persistKeyRecord r w)) =
     (if cloudBackupEnabled r \<and> usingPasskey r then Some r else None)"
  "localKeyRecord (snd (persistKeyRecord r w)) = Some r"
  by (simp_all add: persistKeyRecord_def Let_def)

lemma stuck_blocked:
  "stuck E w0 w \<Longrightarrow> stateWriteBlockedReason w = Some ''corrupt-state''"
  by (simp add: stuck_def stateWriteBlockedReason_def stateIsCorrupt_def stateLockReason_def
      orText_def)

lemma stuck_cong:
  assumes "stuck E w0 w"
    and "stateCorruptionReason w' = stateCorruptionReason w"
    and "localState w' = localState w" and "localBackups w' = localBackups w"
    and "cryptoKey w' = cryptoKey w"
  shows "stuck E w0 w'"
  using assms decryptFails_cong [of w' w E] by (simp add: stuck_def)

lemma loadState_marks:
  assumes "\<not> stateIsLocked w" and "\<not> truthy (cachedState w)" and "decryptFails E w"
  shows "stuck E w (snd (loadState E w)) \<and> fst (loadState E w) = Inr (mkState [])"
proof -
  have r: "loadState E w = (Inr (mkState []),
      (markStateCorrupt ''corrupt-state'' w)\<lparr>cachedState := mkState []\<rparr>)"
  proof (cases "localState w")
    case None
    with assms show ?thesis by (simp add: decryptFails_def)
  next
    case (Some p)
    with assms show ?thesis
      by (cases p)
         (auto simp: decryptFails_def loadState_def markStateCorrupt_def Let_def
            orElse_def succeeds_def split: sum.splits)
  qed
  have "decryptFails E ((markStateCorrupt ''corrupt-state'' w)\<lparr>cachedState := mkState []\<rparr>)"
    using assms(3) decryptFails_cong [of "(markStateCorrupt ''corrupt-state'' w)\<lparr>cachedState := mkState []\<rparr>" w E]
    by (simp add: markStateCorrupt_def)
  then show ?thesis
    by (simp add: r stuck_def markStateCorrupt_def)
qed

lemma loadState_stuck:
  assumes "stuck E w0 w"
  shows "stuck E w0 (snd (loadState E w))"
proof (cases "stateIsLocked w \<or> truthy (cachedState w)")
  case True
  then have "snd (loadState E w) = w
      \<or> snd (loadState E w) = w\<lparr>cachedState := orElse (cachedState w) (mkState [])\<rparr>"
    by (auto simp: loadState_def Let_def)
  then show ?thesis
    using assms by (auto intro: stuck_cong [OF assms])
next
  case False
  from assms have df: "decryptFails E w" by (simp add: stuck_def)
  from False have "stuck E w (snd (loadState E w))"
    using loadState_marks [of w E] df by simp
  with assms show ?thesis by (simp add: stuck_def)
qed

lemma saveState_stuck:
  assumes "stuck E w0 w"
  shows "saveState E state w = (Inl (Error ''corrupt-state''), w\<lparr>cachedState := state\<rparr>)"
    and "stuck E w0 (snd (saveState E state w))"
proof -
  show a: "saveState E state w = (Inl (Error ''corrupt-state''), w\<lparr>cachedState := state\<rparr>)"
    using stuck_blocked [OF assms] by (simp add: saveState_def saveStateInternal_def)
  show "stuck E w0 (snd (saveState E state w))"
    unfolding a by (rule stuck_cong [OF assms]) simp_all
qed

lemma token_stuck:
  assumes "stuck E w0 w"
  shows "processUnsuspendTokenMessage E api nowv tabId token ttl w =
           (Inr (RespLocked ''corrupt-state''), w)"
  using stuck_blocked [OF assms]
  by (simp add: processUnsuspendTokenMessage_def stateIsWritable_def
      lockedMutationResponse_def orText_def)

lemma reconcile_fails:
  assumes "decryptFails E w"
  shows "reconcilePendingStateAfterUnlock E w =
     (Inr (), (markStateCorrupt ''corrupt-state'' w)
                \<lparr>cachedState := orElse (cachedState w) (mkState [])\<rparr>)"
proof (cases "localState w")
  case None
  with assms show ?thesis by (simp add: decryptFails_def)
next
  case (Some p)
  with assms show ?thesis
    by (cases p)
       (auto simp: decryptFails_def reconcilePendingStateAfterUnlock_def
          markStateCorrupt_def Let_def succeeds_def split: sum.splits)
qed

lemma reconcile_marks:
  assumes "decryptFails E w" and "localState w = localState w0"
    and "localBackups w = localBackups w0"
  shows "stuck E w0 (snd (reconcilePendingStateAfterUnlock E w))"
    and "stateIsCorrupt (snd (reconcilePendingStateAfterUnlock E w))"
proof -
  let ?w = "(markStateCorrupt ''corrupt-state'' w)
                \<lparr>cachedState := orElse (cachedState w) (mkState [])\<rparr>"
  have "decryptFails E ?w"
    using assms(1) decryptFails_cong [of ?w w E] by (simp add: markStateCorrupt_def)
  then show "stuck E w0 (snd (reconcilePendingStateAfterUnlock E w))"
    using assms(2,3) by (simp add: reconcile_fails [OF assms(1)] stuck_def markStateCorrupt_def)
  show "stateIsCorrupt (snd (reconcilePendingStateAfterUnlock E w))"
    by (simp add: reconcile_fails [OF assms(1)] stateIsCorrupt_def markStateCorrupt_def)
qed

lemma reconcile_stuck:
  assumes "stuck E w0 w"
  shows "stuck E w0 (snd (reconcilePendingStateAfterUnlock E w))"
  using assms by (intro reconcile_marks) (simp_all add: stuck_def)

lemma cloud_fields:
  "stateCorruptionReason (snd (setCloudBackupEnabled now enabled w)) = stateCorruptionReason w"
  "localState (snd (setCloudBackupEnabled now enabled w)) = localState w"
  "localBackups (snd (setCloudBackupEnabled now enabled w)) = localBackups w"
  "cryptoKey (snd (setCloudBackupEnabled now enabled w)) = cryptoKey w"
  by (auto simp: setCloudBackupEnabled_def Let_def saveSettings_def
      persistKeyRecord_def clearKeyRecords_def split: option.splits prod.splits)

lemma cloud_stuck:
  assumes "stuck E w0 w"
  shows "stuck E w0 (snd (setCloudBackupEnabled now enabled w))"
  by (rule stuck_cong [OF assms]) (simp_all add: cloud_fields)

lemma unwrap_fields:
  assumes "unwrapDataKey E passkey record w = (res, w1)"
  shows "stateCorruptionReason w1 = stateCorruptionReason w"
    and "localState w1 = localState w" and "localBackups w1 = localBackups w"
    and "res = Inl e \<Longrightarrow> w1 = w"
  using assms
  by (auto simp: unwrapDataKey_def Let_def saveKeyToSession_def split: if_splits option.splits)

lemma unlock_fields_all:
  "stateCorruptionReason (snd (unlockWithPasskey E salt iv now passkey w)) = stateCorruptionReason w
   \<and> localState (snd (unlockWithPasskey E salt iv now passkey w)) = localState w
   \<and> localBackups (snd (unlockWithPasskey E salt iv now passkey w)) = localBackups w
   \<and> (fst (unlockWithPasskey E salt iv now passkey w) \<noteq> RespOk \<longrightarrow>
        cryptoKey (snd (unlockWithPasskey E salt iv now passkey w)) = cryptoKey w)"
proof (cases "loadKeyRecord (enc_cloudBackupEnabled (ensureSettings w)) w")
  case None
  then show ?thesis
    by (simp add: unlockWithPasskey_def Let_def)
next
  case (Some kr)
  obtain res w1 where u: "unwrapDataKey E passkey kr w = (res, w1)"
    by (cases "unwrapDataKey E passkey kr w")
  note f = unwrap_fields [OF u]
  show ?thesis
  proof (cases res)
    case (Inl e)
    with Some u f(4) [OF Inl] show ?thesis
      by (simp add: unlockWithPasskey_def Let_def markEncryptionLocked_def)
  next
    case (Inr key)
    with Some u f(1-3) show ?thesis
      by (auto simp: unlockWithPasskey_def Let_def persist_fields
          split: sum.splits prod.splits option.splits)
  qed
qed

lemma unlock_fields:
  "stateCorruptionReason (snd (unlockWithPasskey E salt iv now passkey w)) = stateCorruptionReason w"
  "localState (snd (unlockWithPasskey E salt iv now passkey w)) = localState w"
  "localBackups (snd (unlockWithPasskey E salt iv now passkey w)) = localBackups w"
  "fst (unlockWithPasskey E salt iv now passkey w) \<noteq> RespOk \<Longrightarrow>
     cryptoKey (snd (unlockWithPasskey E salt iv now passkey w)) = cryptoKey w"
  using unlock_fields_all [of E salt iv now passkey w] by simp_all

lemma retry_fields:
  "stateCorruptionReason (snd (retryImportPlaintextKey E w)) = stateCorruptionReason w"
  "localState (snd (retryImportPlaintextKey E w)) = localState w"
  "localBackups (snd (retryImportPlaintextKey E w)) = localBackups w"
  "fst (retryImportPlaintextKey E w) \<noteq> RespOk \<Longrightarrow>
     cryptoKey (snd (retryImportPlaintextKey E w)) = cryptoKey w"
  by (auto simp: retryImportPlaintextKey_def Let_def saveKeyToSession_def
      markEncryptionLocked_def split: option.splits)

lemma unlock_stuck:
  assumes s: "stuck E w0 w" and q: "\<not> clears E (DoUnlock salt iv now passkey) w"
  shows "stuck E w0 (snd (unlockAndReconcile E salt iv now passkey w))"
proof -
  obtain r w1 where u: "unlockWithPasskey E salt iv now passkey w = (r, w1)"
    by (cases "unlockWithPasskey E salt iv now passkey w")
  have f: "stateCorruptionReason w1 = stateCorruptionReason w" "localState w1 = localState w"
    "localBackups w1 = localBackups w"
    using unlock_fields(1-3) [of E salt iv now passkey w] by (simp_all add: u)
  show ?thesis
  proof (cases "r = RespOk")
    case True
    with q u have df: "decryptFails E w1" by simp
    have ls: "localState w1 = localState w0" "localBackups w1 = localBackups w0"
      using f s by (simp_all add: stuck_def)
    note m = reconcile_marks [OF df ls]
    obtain x w2 where rc: "reconcilePendingStateAfterUnlock E w1 = (x, w2)"
      by (cases "reconcilePendingStateAfterUnlock E w1")
    from m rc have "stuck E w0 w2" by simp
    moreover have "snd (unlockAndReconcile E salt iv now passkey w) = w2"
      using True u rc by (simp add: unlockAndReconcile_def split: sum.splits)
    ultimately show ?thesis by simp
  next
    case False
    with u have ck: "cryptoKey w1 = cryptoKey w"
      using unlock_fields(4) [of E salt iv now passkey w] by simp
    have "snd (unlockAndReconcile E salt iv now passkey w) = w1"
      using False u by (cases r) (simp_all add: unlockAndReconcile_def)
    moreover have "stuck E w0 w1"
      by (rule stuck_cong [OF s f ck])
    ultimately show ?thesis by simp
  qed
qed

lemma retry_stuck:
  assumes s: "stuck E w0 w" and q: "\<not> clears E DoRetryImport w"
  shows "stuck E w0 (snd (retryImportKey E w))"
proof -
  obtain r w1 where u: "retryImportPlaintextKey E w = (r, w1)"
    by (cases "retryImportPlaintextKey E w")
  have f: "stateCorruptionReason w1 = stateCorruptionReason w" "localState w1 = localState w"
    "localBackups w1 = localBackups w"
    using retry_fields(1-3) [of E w] by (simp_all add: u)
  show ?thesis
  proof (cases "r = RespOk")
    case True
    with q u have df: "decryptFails E w1" by simp
    have ls: "localState w1 = localState w0" "localBackups w1 = localBackups w0"
      using f s by (simp_all add: stuck_def)
    note m = reconcile_marks [OF df ls]
    obtain x w2 where rc: "reconcilePendingStateAfterUnlock E w1 = (x, w2)"
      by (cases "reconcilePendingStateAfterUnlock E w1")
    from m rc have "stuck E w0 w2" by simp
    moreover have "snd (retryImportKey E w) = w2"
      using True u rc by (simp add: retryImportKey_def split: sum.splits)
    ultimately show ?thesis by simp
  next
    case False
    with u have ck: "cryptoKey w1 = cryptoKey w"
      using retry_fields(4) [of E w] by simp
    have "snd (retryImportKey E w) = w1"
      using False u by (cases r) (simp_all add: retryImportKey_def)
    moreover have "stuck E w0 w1"
      by (rule stuck_cong [OF s f ck])
    ultimately show ?thesis by simp
  qed
qed

lemma perform_stuck:
  assumes "stuck E w0 w" and "\<not> clears E a w"
  shows "stuck E w0 (perform E a w)"
proof (cases a)
  case DoLoadState
  then show ?thesis using loadState_stuck [OF assms(1)] by simp
next
  case (DoSaveState s)
  then show ?thesis using saveState_stuck(2) [OF assms(1)] by simp
next
  case (DoUnsuspendToken api nowv tabId token ttl)
  then show ?thesis using token_stuck [OF assms(1)] assms(1) by simp
next
  case DoReconcile
  then show ?thesis using reconcile_stuck [OF assms(1)] by simp
next
  case (DoSetCloudBackup now enabled)
  then show ?thesis using cloud_stuck [OF assms(1)] by simp
next
  case (DoStorageChanged area changed)
  then show ?thesis using assms by (auto simp: handleStorageChanged_def)
next
  case (DoUnlock salt iv now passkey)
  then show ?thesis using unlock_stuck [OF assms(1)] assms(2) by simp
next
  case DoRetryImport
  then show ?thesis using retry_stuck [OF assms(1)] assms(2) by simp
qed

lemma performAll_stuck:
  "stuck E w0 w \<Longrightarrow> quietRun E acts w \<Longrightarrow> stuck E w0 (performAll E acts w)"
proof (induction acts arbitrary: w)
  case Nil
  then show ?case by simp
next
  case (Cons a acts)
  then show ?case using perform_stuck [of E w0 w a] by simp
qed

text \<open>A payload that no key decrypts: only a notification about the state key ends
  the quiet.\<close>

lemma garbled_quiet:
  "stuck E w0 w \<Longrightarrow> localState w0 = Some Garbled \<Longrightarrow>
   \<not> list_ex notifiesStateChange acts \<Longrightarrow> quietRun E acts w"
proof (induction acts arbitrary: w)
  case Nil
  then show ?case by simp
next
  case (Cons a acts)
  have g: "localState w = Some Garbled"
    using Cons.prems(1,2) by (simp add: stuck_def)
  have nc: "\<not> clears E a w"
  proof (cases a)
    case (DoStorageChanged area changed)
    with Cons.prems(3) show ?thesis by simp
  next
    case (DoUnlock salt iv now passkey)
    have "decryptFails E (snd (unlockWithPasskey E salt iv now passkey w))"
      using g by (simp add: decryptFails_def unlock_fields)
    with DoUnlock show ?thesis by simp
  next
    case DoRetryImport
    have "decryptFails E (snd (retryImportPlaintextKey E w))"
      using g by (simp add: decryptFails_def retry_fields)
    with DoRetryImport show ?thesis by simp
  qed simp_all
  from Cons.prems(3) have rest: "\<not> list_ex notifiesStateChange acts" by simp
  from perform_stuck [OF Cons.prems(1) nc] have "stuck E w0 (perform E a w)" .
  from Cons.IH [OF this Cons.prems(2) rest] nc show ?case by simp
qed

lemma generate_fields:
  "cryptoKey (snd (generateAndPersistDataKey newKey now cloud w)) = Some newKey"
  "encryptionLocked (snd (generateAndPersistDataKey newKey now cloud w)) = False"
  "stateCorruptionReason (snd (generateAndPersistDataKey newKey now cloud w))
     = stateCorruptionReason w"
  "localState (snd (generateAndPersistDataKey newKey now cloud w)) = localState w"
  "localBackups (snd (generateAndPersistDataKey newKey now cloud w)) = localBackups w"
  "syncKeyRecord (snd (generateAndPersistDataKey newKey now cloud w)) = None"
  "sessionCryptoKey (snd (generateAndPersistDataKey newKey now cloud w)) = Some newKey"
  by (simp_all add: generateAndPersistDataKey_def Let_def persist_fields
      ensureSettings_def saveSettings_def saveKeyToSession_def)

lemma reset_fresh:
  assumes "w3 = snd (resetEncryption E newKey now w)"
  shows "fst (resetEncryption E newKey now w) = Inr RespOk
       \<and> stateIsWritable w3
       \<and> cachedState w3 = mkState []
       \<and> stateCorruptionReason w3 = None
       \<and> localBackups w3 = None
       \<and> cryptoKey w3 = Some newKey
       \<and> \<not> encryptionLocked w3
       \<and> syncKeyRecord w3 = None
       \<and> localState w3 =
           Some (if enc_enabled (localSettings w3)
                 then Encrypted newKey (JObj [(''v'', JNum (Fin 2)), (''tabs'', JArr [])])
                 else PlainPayload (JObj [(''v'', JNum (Fin 2)), (''tabs'', JArr [])]))"
proof -
  define w7 where "w7 = clearLegacyPendingState
     ((clearSnapshotDetailsCache (clearStateCorruption (clearKeyRecords (clearSessionKey w))))
        \<lparr>cachedState := JNull\<rparr>\<lparr>localState := None, localBackups := None\<rparr>)"
  define g where "g = snd (generateAndPersistDataKey newKey now
     (enc_cloudBackupEnabled (ensureSettings w7)) w7)"
  define w9 where "w9 = g\<lparr>cachedState := mkState []\<rparr>"
  have w7f: "stateCorruptionReason w7 = None" "localBackups w7 = None"
    by (simp_all add: w7_def clearLegacyPendingState_def clearSnapshotDetailsCache_def
        clearStateCorruption_def clearKeyRecords_def clearSessionKey_def)
  have gf: "cryptoKey g = Some newKey" "encryptionLocked g = False"
    "stateCorruptionReason g = None" "localBackups g = None" "syncKeyRecord g = None"
    unfolding g_def by (simp_all add: generate_fields w7f)
  have wr9: "stateIsWritable w9"
    using gf
    by (simp add: w9_def stateIsWritable_def stateWriteBlockedReason_def stateIsCorrupt_def
        stateIsLocked_def encryptionIsLocked_def hasCryptoKey_def)
  have enc9: "succeeds (encodeStateV2 E (mkState []))"
    by (simp add: encode_empty)
  have sv: "saveState E (mkState []) w9 =
      (Inr (), w9\<lparr>cachedState := mkState [], localState := storedPayload E (mkState []) w9\<rparr>)"
    by (rule saveState_ok [OF wr9 enc9])
  have c9: "cachedState w9 = mkState []" by (simp add: w9_def)
  have re: "resetEncryption E newKey now w =
      (Inr RespOk, w9\<lparr>cachedState := mkState [], localState := storedPayload E (mkState []) w9\<rparr>)"
    unfolding resetEncryption_def Let_def
    unfolding w7_def [symmetric] g_def [symmetric] w9_def [symmetric]
    by (simp add: c9 sv)
  have sp: "storedPayload E (mkState []) w9 =
      Some (if enc_enabled (localSettings w9)
                 then Encrypted newKey (JObj [(''v'', JNum (Fin 2)), (''tabs'', JArr [])])
                 else PlainPayload (JObj [(''v'', JNum (Fin 2)), (''tabs'', JArr [])]))"
    using gf(1) by (simp add: storedPayload_def encode_empty ensureSettings_def w9_def)
  have f9: "stateCorruptionReason w9 = None" "localBackups w9 = None"
    "cryptoKey w9 = Some newKey" "\<not> encryptionLocked w9" "syncKeyRecord w9 = None"
    using gf by (simp_all add: w9_def)
  show ?thesis
    unfolding assms re
    using wr9 f9 sp by simp
qed

lemma garbledWorld_facts:
  "\<not> stateIsLocked garbledWorld"
  "\<not> truthy (cachedState garbledWorld)"
  "decryptFails decimalEnv garbledWorld"
  "localState garbledWorld = Some Garbled"
  by (simp_all add: garbledWorld_def unlockedWorld_def freshWorld_def stateIsLocked_def
      encryptionIsLocked_def hasCryptoKey_def decryptFails_def)

lemma loadState_garbled:
  "snd (loadState decimalEnv garbledWorld) =
     garbledWorld\<lparr>stateCorruptionReason := Some ''corrupt-state'', cachedState := mkState []\<rparr>"
  by (simp add: loadState_def markStateCorrupt_def orElse_def stateIsLocked_def
      encryptionIsLocked_def hasCryptoKey_def garbledWorld_def unlockedWorld_def
      freshWorld_def Let_def)

section \<open>Facts about the round trip\<close>

lemma primitive_toFinite:
  "primitive v \<Longrightarrow> \<exists>r. toFiniteNumber E v fb = Inr r"
  by (cases v) (simp_all add: toFiniteNumber_def)

lemma validEntry_succeeds:
  assumes "validEntry e"
  shows "succeeds (normalizeEntry E e)"
proof -
  from assms obtain w where w: "toFiniteNumber E (getProp e ''windowId'') (JNum (Fin 0)) = Inr w"
    using primitive_toFinite unfolding validEntry_def by blast
  from assms obtain s where s: "toFiniteNumber E (getProp e ''suspendedAt'') (JNum (Fin 0)) = Inr s"
    using primitive_toFinite unfolding validEntry_def by blast
  from assms obtain t where t: "toFiniteNumber E (getProp e ''tokenIssuedAt'') s = Inr t"
    using primitive_toFinite unfolding validEntry_def by blast
  show ?thesis
    using assms w s t by (simp add: validEntry_def normalizeEntry_def Let_def)
qed

lemma validEntry_normalized:
  assumes "validEntry e"
  shows "normalizeEntry E e = Inr (canonical E e)" and "truthy (canonical E e)"
proof -
  from validEntry_succeeds [OF assms, of E] obtain n where n: "normalizeEntry E e = Inr n"
    by (cases "normalizeEntry E e") auto
  then show "normalizeEntry E e = Inr (canonical E e)" by (simp add: canonical_def)
  from assms n have "n \<noteq> JNull"
    by (auto simp: validEntry_def normalizeEntry_def Let_def bindE_def split: sum.splits if_splits)
  moreover from n have "n = JNull \<or> (\<exists>ps. n = JObj ps)"
    by (auto simp: normalizeEntry_def Let_def bindE_def split: sum.splits if_splits)
  ultimately show "truthy (canonical E e)" using n by (auto simp: canonical_def)
qed

lemma finite_toFinite:
  "finiteNum v \<Longrightarrow> toFiniteNumber E v fb = Inr v"
  by (cases v) (auto simp: finiteNum_def)

lemma tuple_round_trip:
  assumes n: "normalizeEntry E e = Inr n" and t: "truthy n" and k: "validId E k"
  shows "\<exists>tuple. encodeTuple E k n = Inr tuple \<and> decodeTuple E tuple = Inr (Some (k, n))"
proof -
  from normalizeEntry_shape [OF n t] obtain u ti w s m r f rest where
    sh: "n = JObj ([(''url'', JStr u), (''title'', ti), (''windowId'', w),
                     (''suspendedAt'', s), (''method'', JStr m), (''reason'', r),
                     (''favIconUrl'', f)] @ rest)"
    and u: "u \<noteq> []" and st: "typeofString ti" and fw: "finiteNum w" and fs: "finiteNum s"
    and sr: "typeofString r" and sf: "typeofString f"
    and rest: "(m = ''discard'' \<and> rest = []) \<or>
              (m = ''page'' \<and> (\<exists>tk ti b.
                   rest = [(''token'', tk), (''tokenIssuedAt'', ti), (''tokenUsed'', JBool b)]
                   \<and> typeofString tk \<and> finiteNum ti))"
    by blast
  from k obtain q where q: "stringToNumber E k = Fin q" "isInteger (Fin q)" "0 < q"
      "numberToString E (Fin q) = k"
    by (auto simp: validId_def split: jsnum.splits)
  have idq: "toFiniteNumber E (JNum (Fin q)) (JNum NaN) = Inr (JNum (Fin q))"
    by (simp add: isFinite_def)
  have chk: "isIntegerVal (JNum (Fin q))" "\<not> leZeroVal (JNum (Fin q))"
    using q by (simp_all add: leZero_def)
  from st obtain ts where ts: "ti = JStr ts" by (cases ti) auto
  from sr obtain rs where rs: "r = JStr rs" by (cases r) auto
  from sf obtain fvs where fvs: "f = JStr fvs" by (cases f) auto
  from rest show ?thesis
  proof
    assume d: "m = ''discard'' \<and> rest = []"
    have enc: "encodeTuple E k n = Inr (JArr [JNum (Fin q), JStr u, ti, w, s, JNum (Fin 0), r,
        JStr [], JNum (Fin 0), JNum (Fin 0), f])"
      using d sh q(1) ts rs fvs finite_toFinite [OF fw] finite_toFinite [OF fs]
      by (simp add: encodeTuple_def Let_def decodeMethod_def METHOD_DISCARD_def
          METHOD_PAGE_def stringOrEmpty_def)
    have dec: "decodeTuple E (JArr [JNum (Fin q), JStr u, ti, w, s, JNum (Fin 0), r,
        JStr [], JNum (Fin 0), JNum (Fin 0), f]) = Inr (Some (k, n))"
      using d sh q(4) u ts rs fvs chk idq finite_toFinite [OF fw] finite_toFinite [OF fs]
      by (simp add: decodeTuple_def Let_def idx_def decodeMethod_def METHOD_DISCARD_def
          METHOD_PAGE_def stringOrEmpty_def del: toFiniteNumber_JNum)
    from enc dec show ?thesis by simp
  next
    assume "m = ''page'' \<and> (\<exists>tk ti b.
                   rest = [(''token'', tk), (''tokenIssuedAt'', ti), (''tokenUsed'', JBool b)]
                   \<and> typeofString tk \<and> finiteNum ti)"
    then obtain tk tia b where p: "m = ''page''"
      "rest = [(''token'', tk), (''tokenIssuedAt'', tia), (''tokenUsed'', JBool b)]"
      "typeofString tk" "finiteNum tia"
      by blast
    from p(3) obtain tks where tks: "tk = JStr tks" by (cases tk) auto
    have enc: "encodeTuple E k n = Inr (JArr [JNum (Fin q), JStr u, ti, w, s, JNum (Fin 1), r,
        tk, tia, JNum (if b then Fin 1 else Fin 0), f])"
      using p sh q(1) ts rs fvs tks finite_toFinite [OF fw] finite_toFinite [OF fs]
        finite_toFinite [OF p(4)]
      by (simp add: encodeTuple_def Let_def decodeMethod_def METHOD_DISCARD_def
          METHOD_PAGE_def stringOrEmpty_def)
    have dec: "decodeTuple E (JArr [JNum (Fin q), JStr u, ti, w, s, JNum (Fin 1), r,
        tk, tia, JNum (if b then Fin 1 else Fin 0), f]) = Inr (Some (k, n))"
      using p sh q(4) u ts rs fvs tks chk idq finite_toFinite [OF fw] finite_toFinite [OF fs]
        finite_toFinite [OF p(4)]
      by (simp add: decodeTuple_def Let_def idx_def decodeMethod_def METHOD_DISCARD_def
          METHOD_PAGE_def stringOrEmpty_def del: toFiniteNumber_JNum)
    from enc dec show ?thesis by simp
  qed
qed

lemma encode_then_decode_loop:
  assumes "\<forall>(k, e) \<in> set es. validId E k \<and> validEntry e"
  shows "\<exists>ts. encodeLoop E es acc = Inr (acc @ ts)
            \<and> compactLoop E ts acc' = Inr (storeAll E es acc')"
  using assms
proof (induction es arbitrary: acc acc')
  case Nil
  then show ?case by simp
next
  case (Cons a es)
  obtain k e where a: "a = (k, e)" by (cases a)
  from Cons.prems a have v: "validId E k" "validEntry e" by auto
  note n = validEntry_normalized [OF v(2)]
  from tuple_round_trip [OF n v(1)] obtain tuple where
    tu: "encodeTuple E k (canonical E e) = Inr tuple"
        "decodeTuple E tuple = Inr (Some (k, canonical E e))"
    by blast
  from Cons.prems have rest: "\<forall>(k, e) \<in> set es. validId E k \<and> validEntry e" by simp
  from Cons.IH [OF rest, of "acc @ [tuple]" "objAssign k (canonical E e) acc'"]
  obtain ts where ts: "encodeLoop E es (acc @ [tuple]) = Inr ((acc @ [tuple]) @ ts)"
      "compactLoop E ts (objAssign k (canonical E e) acc')
         = Inr (storeAll E es (objAssign k (canonical E e) acc'))"
    by blast
  have "encodeLoop E (a # es) acc = Inr (acc @ (tuple # ts))"
    using a n tu(1) ts(1) by simp
  moreover have "compactLoop E (tuple # ts) acc' = Inr (storeAll E (a # es) acc')"
    using a tu(2) ts(2) by simp
  ultimately show ?case by blast
qed

lemma legacy_loop:
  assumes "\<forall>(k, e) \<in> set es. validEntry e"
  shows "legacyLoop E es acc = Inr (storeAll E es acc)"
  using assms
proof (induction es arbitrary: acc)
  case Nil
  then show ?case by simp
next
  case (Cons a es)
  obtain k e where a: "a = (k, e)" by (cases a)
  from Cons.prems a have v: "validEntry e" by auto
  note n = validEntry_normalized [OF v]
  from Cons.prems have rest: "\<forall>(k, e) \<in> set es. validEntry e" by simp
  show ?case using a n Cons.IH [OF rest] by simp
qed

lemma map_of_storeAll:
  assumes "distinct (map fst es)" and "\<forall>(k, e) \<in> set es. k \<noteq> ''__proto__''"
  shows "map_of (storeAll E es acc) k =
           (case map_of es k of Some e \<Rightarrow> Some (canonical E e) | None \<Rightarrow> map_of acc k)"
  using assms
proof (induction es arbitrary: acc)
  case Nil
  then show ?case by simp
next
  case (Cons a es)
  obtain k' e where a: "a = (k', e)" by (cases a)
  from Cons.prems a have d: "distinct (map fst es)" "k' \<notin> fst ` set es" "k' \<noteq> ''__proto__''"
    and rest: "\<forall>(k, e) \<in> set es. k \<noteq> ''__proto__''"
    by auto
  have none: "map_of es k' = None"
    using d(2) by (simp add: map_of_eq_None_iff)
  show ?case
    using a Cons.IH [OF d(1) rest, of "objAssign k' (canonical E e) acc"] d(3) none
    by (auto simp: objAssign_def update_conv' split: option.splits)
qed

lemma fst_set_insertEntry: "fst ` set (insertEntry E a bs) = insert (fst a) (fst ` set bs)"
  by (simp add: set_insertEntry)

lemma distinct_insertEntry:
  "distinct (map fst (insertEntry E a bs)) = (fst a \<notin> fst ` set bs \<and> distinct (map fst bs))"
  by (induction bs) (auto simp: set_insertEntry)

lemma distinct_sortEntries:
  "distinct (map fst es) \<Longrightarrow> distinct (map fst (sortEntries E es))"
proof (induction es)
  case Nil
  then show ?case by (simp add: sortEntries_def)
next
  case (Cons a es)
  have "sortEntries E (a # es) = insertEntry E a (sortEntries E es)"
    by (simp add: sortEntries_def)
  with Cons show ?case by (simp add: distinct_insertEntry)
qed

lemma map_of_sortEntries:
  "distinct (map fst es) \<Longrightarrow> map_of (sortEntries E es) = map_of es"
  by (rule map_of_inject_set [THEN iffD2]) (simp_all add: distinct_sortEntries)

lemma normalizeEntry_idem:
  assumes n: "normalizeEntry E e = Inr n" and t: "truthy n"
  shows "normalizeEntry E n = Inr n"
proof -
  from normalizeEntry_shape [OF n t] obtain u ti w s m r f rest where
    sh: "n = JObj ([(''url'', JStr u), (''title'', ti), (''windowId'', w),
                     (''suspendedAt'', s), (''method'', JStr m), (''reason'', r),
                     (''favIconUrl'', f)] @ rest)"
    and u: "u \<noteq> []" and st: "typeofString ti" and fw: "finiteNum w" and fs: "finiteNum s"
    and sr: "typeofString r" and sf: "typeofString f"
    and rest: "(m = ''discard'' \<and> rest = []) \<or>
              (m = ''page'' \<and> (\<exists>tk ti b.
                   rest = [(''token'', tk), (''tokenIssuedAt'', ti), (''tokenUsed'', JBool b)]
                   \<and> typeofString tk \<and> finiteNum ti))"
    by blast
  from st obtain ts where ts: "ti = JStr ts" by (cases ti) auto
  from sr obtain rs where rs: "r = JStr rs" by (cases r) auto
  from sf obtain fvs where fvs: "f = JStr fvs" by (cases f) auto
  from rest show ?thesis
  proof
    assume d: "m = ''discard'' \<and> rest = []"
    show ?thesis
      using d sh u ts rs fvs finite_toFinite [OF fw] finite_toFinite [OF fs]
      by (simp add: normalizeEntry_def Let_def decodeMethod_def METHOD_DISCARD_def
          METHOD_PAGE_def stringOrEmpty_def del: toFiniteNumber_JNum)
  next
    assume "m = ''page'' \<and> (\<exists>tk ti b.
                   rest = [(''token'', tk), (''tokenIssuedAt'', ti), (''tokenUsed'', JBool b)]
                   \<and> typeofString tk \<and> finiteNum ti)"
    then obtain tk tia b where p: "m = ''page''"
      "rest = [(''token'', tk), (''tokenIssuedAt'', tia), (''tokenUsed'', JBool b)]"
      "typeofString tk" "finiteNum tia"
      by blast
    from p(3) obtain tks where tks: "tk = JStr tks" by (cases tk) auto
    show ?thesis
      using p sh u ts rs fvs tks finite_toFinite [OF fw] finite_toFinite [OF fs]
        finite_toFinite [OF p(4)]
      by (simp add: normalizeEntry_def Let_def decodeMethod_def METHOD_DISCARD_def
          METHOD_PAGE_def stringOrEmpty_def del: toFiniteNumber_JNum)
  qed
qed

section \<open>Facts about the state lock\<close>

lemma consistent_initial: "consistent s0 (initial s0)"
  by (auto simp: consistent_def initial_def chained_def ordered_def untouched_def traced_def
      agrees_def serial_def)

lemma enter_sel [simp]:
  "calls (enter l fn r) = calls r @
     [\<lparr>awaited = stateLock r, granted = Suc (length (calls r)), stage = Queued, vars = l,
       todo = fn, threw = False, vars0 = l, callback = fn\<rparr>]"
  "stateLock (enter l fn r) = Suc (length (calls r))"
  "resolved (enter l fn r) = resolved r"
  "store (enter l fn r) = store r"
  "trace (enter l fn r) = trace r"
  by (simp_all add: enter_def Let_def)

lemma chained_enter: "chained r \<Longrightarrow> chained (enter l fn r)"
  unfolding chained_def
  apply (simp add: nth_append)
  apply (intro conjI allI impI)
   apply (auto simp: less_Suc_eq)
  done

lemma ordered_enter: "ordered r \<Longrightarrow> ordered (enter l fn r)"
  unfolding ordered_def
  by (auto simp: nth_append less_Suc_eq)

lemma untouched_enter: "untouched r \<Longrightarrow> untouched (enter l fn r)"
  unfolding untouched_def
  by (auto simp: nth_append less_Suc_eq)

lemma traced_enter: "traced r \<Longrightarrow> traced (enter l fn r)"
  unfolding traced_def
  by (auto simp: nth_append less_Suc_eq)

lemma agrees_enter: "agrees s0 r \<Longrightarrow> agrees s0 (enter l fn r)"
  unfolding agrees_def serial_def
  by (simp add: pending_def)

lemma consistent_enter: "consistent s0 r \<Longrightarrow> consistent s0 (enter l fn r)"
  by (simp add: consistent_def chained_enter ordered_enter untouched_enter traced_enter agrees_enter)

lemma turn_holder:
  assumes o: "ordered r" and i: "i < length (calls r)"
    and h: "stage (calls r ! i) = Running \<or> stage (calls r ! i) = Settled"
  shows "turn r i"
proof -
  from h have nq: "stage (calls r ! i) \<noteq> Queued" and nr: "stage (calls r ! i) \<noteq> Released"
    by auto
  have "\<forall>j < i. stage (calls r ! j) = Released"
    using o i nq unfolding ordered_def by blast
  moreover have "\<forall>j. i < j \<and> j < length (calls r) \<longrightarrow> stage (calls r ! j) = Queued"
    using o nr unfolding ordered_def by blast
  ultimately show ?thesis by (simp add: turn_def)
qed

lemma turn_granted:
  assumes c: "chained r" and o: "ordered r" and i: "i < length (calls r)"
    and q: "stage (calls r ! i) = Queued" and a: "awaited (calls r ! i) \<in> set (resolved r)"
  shows "turn r i"
proof -
  from c i have "awaited (calls r ! i) = i"
    by (simp add: chained_def)
  with a c have "i = 0 \<or> (\<exists>k < length (calls r). i = Suc k \<and> stage (calls r ! k) = Released)"
    by (simp add: chained_def)
  then have before: "\<forall>j < i. stage (calls r ! j) = Released"
  proof
    assume "i = 0"
    then show ?thesis by simp
  next
    assume "\<exists>k < length (calls r). i = Suc k \<and> stage (calls r ! k) = Released"
    then obtain k where k: "k < length (calls r)" "i = Suc k" "stage (calls r ! k) = Released"
      by blast
    show ?thesis
    proof (intro allI impI)
      fix j assume "j < i"
      then have "j = k \<or> j < k" using k(2) by auto
      then show "stage (calls r ! j) = Released"
      proof
        assume "j = k"
        with k(3) show ?thesis by simp
      next
        assume "j < k"
        moreover have "stage (calls r ! k) \<noteq> Queued" using k(3) by simp
        ultimately show ?thesis using o k(1) unfolding ordered_def by blast
      qed
    qed
  qed
  have after: "\<forall>j. i < j \<and> j < length (calls r) \<longrightarrow> stage (calls r ! j) = Queued"
  proof (intro allI impI)
    fix j assume j: "i < j \<and> j < length (calls r)"
    show "stage (calls r ! j) = Queued"
    proof (rule ccontr)
      assume "stage (calls r ! j) \<noteq> Queued"
      with o j have "stage (calls r ! i) = Released" unfolding ordered_def by blast
      with q show False by simp
    qed
  qed
  from before after show ?thesis by (simp add: turn_def)
qed

lemma foldl_pending_released:
  "\<forall>c \<in> set cs. stage c = Released \<Longrightarrow> foldl (\<lambda>s c. pending c s) s cs = s"
  by (induction cs arbitrary: s) (simp_all add: pending_def)

lemma foldl_at:
  assumes "i < length cs"
  shows "foldl f s cs = foldl f (f (foldl f s (take i cs)) (cs ! i)) (drop (Suc i) cs)"
proof -
  have "cs = take i cs @ cs ! i # drop (Suc i) cs"
    using assms by (rule id_take_nth_drop)
  then have "foldl f s cs = foldl f s (take i cs @ cs ! i # drop (Suc i) cs)"
    by simp
  then show ?thesis by simp
qed

lemma serial_update:
  assumes "i < length cs" and "callback c = callback (cs ! i)" and "vars0 c = vars0 (cs ! i)"
  shows "serial (cs[i := c]) s = serial cs s"
proof -
  have "serial (cs[i := c]) s =
      foldl (\<lambda>s c. runBody (callback c) (vars0 c) s)
        (runBody (callback c) (vars0 c)
           (foldl (\<lambda>s c. runBody (callback c) (vars0 c) s) s (take i cs)))
        (drop (Suc i) cs)"
    unfolding serial_def using assms(1)
    by (subst foldl_at [of i]) simp_all
  also have "\<dots> = serial cs s"
    unfolding serial_def using assms
    by (subst (2) foldl_at [of i]) simp_all
  finally show ?thesis .
qed

lemma pending_update:
  assumes i: "i < length cs" and t: "\<forall>j < i. stage (cs ! j) = Released"
    and p: "pending c s' = pending (cs ! i) s"
  shows "foldl (\<lambda>s c. pending c s) s' (cs[i := c]) = foldl (\<lambda>s c. pending c s) s cs"
proof -
  have rel: "\<forall>c \<in> set (take i cs). stage c = Released"
    using i t by (auto simp: in_set_conv_nth)
  have "foldl (\<lambda>s c. pending c s) s' (cs[i := c]) =
      foldl (\<lambda>s c. pending c s) (pending c s') (drop (Suc i) cs)"
    using i rel by (subst foldl_at [of i]) (simp_all add: foldl_pending_released)
  also have "\<dots> = foldl (\<lambda>s c. pending c s) s cs"
    using i rel p by (subst (2) foldl_at [of i]) (simp_all add: foldl_pending_released)
  finally show ?thesis .
qed

lemma consistent_advance:
  assumes consistent: "consistent s0 r" and i: "i < length (calls r)" and t: "turn r i"
    and st: "stage (calls r ! i) = Queued \<or> stage (calls r ! i) = Running"
    and same: "awaited c = awaited (calls r ! i)" "granted c = granted (calls r ! i)"
              "callback c = callback (calls r ! i)" "vars0 c = vars0 (calls r ! i)"
    and st': "stage c = Running \<or> stage c = Settled"
    and p: "pending c s' = pending (calls r ! i) (store r)"
    and tr: "tr = trace r \<or> tr = trace r @ [i]"
  shows "consistent s0 (r\<lparr>calls := (calls r)[i := c], store := s', trace := tr\<rparr>)"
proof -
  let ?r = "r\<lparr>calls := (calls r)[i := c], store := s', trace := tr\<rparr>"
  from consistent have c: "chained r" and o: "ordered r" and u: "untouched r" and d: "traced r"
    and a: "agrees s0 r"
    by (simp_all add: consistent_def)
  have rel: "stage ((calls r)[i := c] ! k) = Released \<longleftrightarrow> stage (calls r ! k) = Released"
    if "k < length (calls r)" for k
    using that st st' by (cases "k = i") auto
  have "chained ?r"
  proof -
    have c1: "stateLock ?r = length (calls ?r)"
      using c by (simp add: chained_def)
    have c2: "\<forall>k < length (calls ?r). awaited (calls ?r ! k) = k \<and> granted (calls ?r ! k) = Suc k"
      using c i same by (simp add: chained_def nth_list_update)
    have c3: "(p \<in> set (resolved ?r)) =
        (p = 0 \<or> (\<exists>k < length (calls ?r). p = Suc k \<and> stage (calls ?r ! k) = Released))" for p
    proof -
      have "(\<exists>k < length (calls ?r). p = Suc k \<and> stage (calls ?r ! k) = Released) =
          (\<exists>k < length (calls r). p = Suc k \<and> stage (calls r ! k) = Released)"
        using rel by (simp cong: conj_cong)
      moreover have "(p \<in> set (resolved r)) =
          (p = 0 \<or> (\<exists>k < length (calls r). p = Suc k \<and> stage (calls r ! k) = Released))"
        using c unfolding chained_def by blast
      ultimately show ?thesis by simp
    qed
    from c1 c2 c3 show ?thesis unfolding chained_def by blast
  qed
  moreover have "ordered ?r"
    unfolding ordered_def
  proof (intro allI impI)
    fix a b
    assume h: "a < b \<and> b < length (calls ?r) \<and> stage (calls ?r ! b) \<noteq> Queued"
    then have b: "b < length (calls r)" and ab: "a < b" by simp_all
    have "b \<le> i"
    proof (rule ccontr)
      assume "\<not> b \<le> i"
      then have "i < b" by simp
      with t b have "stage (calls r ! b) = Queued" by (simp add: turn_def)
      with h \<open>i < b\<close> show False by simp
    qed
    with ab have "a < i" by simp
    with t have "stage (calls r ! a) = Released" by (simp add: turn_def)
    with \<open>a < i\<close> show "stage (calls ?r ! a) = Released" by simp
  qed
  moreover have "untouched ?r"
    using u i st' unfolding untouched_def
    by (auto simp: nth_list_update)
  moreover have "traced ?r"
  proof -
    from d have s: "sorted (trace r)"
      and e: "\<forall>j \<in> set (trace r). j < length (calls r) \<and> stage (calls r ! j) \<noteq> Queued"
      by (simp_all add: traced_def)
    have le: "\<forall>j \<in> set (trace r). j \<le> i"
    proof
      fix j assume j: "j \<in> set (trace r)"
      show "j \<le> i"
      proof (rule ccontr)
        assume "\<not> j \<le> i"
        then have "i < j" by simp
        with t e j have "stage (calls r ! j) = Queued" by (simp add: turn_def)
        with e j show False by simp
      qed
    qed
    have e': "\<forall>j \<in> set (trace r). stage ((calls r)[i := c] ! j) \<noteq> Queued"
    proof
      fix j assume j: "j \<in> set (trace r)"
      show "stage ((calls r)[i := c] ! j) \<noteq> Queued"
      proof (cases "j = i")
        case True
        with i st' show ?thesis by auto
      next
        case False
        with e j show ?thesis by simp
      qed
    qed
    from tr show ?thesis
    proof
      assume "tr = trace r"
      with s e e' show ?thesis by (simp add: traced_def)
    next
      assume "tr = trace r @ [i]"
      with s e e' le i st' show ?thesis by (auto simp: traced_def sorted_append)
    qed
  qed
  moreover have "agrees s0 ?r"
  proof -
    have "foldl (\<lambda>s c. pending c s) s' ((calls r)[i := c])
        = foldl (\<lambda>s c. pending c s) (store r) (calls r)"
      using i t p by (intro pending_update) (simp_all add: turn_def)
    moreover have "serial ((calls r)[i := c]) s0 = serial (calls r) s0"
      using i same by (intro serial_update) simp_all
    ultimately show ?thesis using a by (simp add: agrees_def)
  qed
  ultimately show ?thesis by (simp add: consistent_def)
qed

lemma consistent_runSegment:
  assumes consistent: "consistent s0 r" and i: "i < length (calls r)" and t: "turn r i"
    and st: "stage (calls r ! i) = Queued \<or> stage (calls r ! i) = Running"
  shows "consistent s0 (runSegment i r)"
proof (cases "todo (calls r ! i)")
  case Nil
  have "consistent s0 (r\<lparr>calls := (calls r)[i := (calls r ! i)\<lparr>stage := Settled\<rparr>],
      store := store r, trace := trace r\<rparr>)"
    using st Nil by (intro consistent_advance [OF consistent i t st]) (auto simp: pending_def)
  then show ?thesis using Nil by (simp add: runSegment_def)
next
  case (Cons f fs)
  show ?thesis
  proof (cases "f (vars (calls r ! i)) (store r)")
    case (Next l s)
    have "consistent s0 (r\<lparr>calls := (calls r)[i := (calls r ! i)\<lparr>stage := Running, vars := l, todo := fs\<rparr>],
        store := s, trace := trace r @ [i]\<rparr>)"
      using st Cons Next by (intro consistent_advance [OF consistent i t st]) (auto simp: pending_def)
    then show ?thesis using Cons Next by (simp add: runSegment_def)
  next
    case (Returns s)
    have "consistent s0 (r\<lparr>calls := (calls r)[i := (calls r ! i)\<lparr>stage := Settled, todo := []\<rparr>],
        store := s, trace := trace r @ [i]\<rparr>)"
      using st Cons Returns by (intro consistent_advance [OF consistent i t st]) (auto simp: pending_def)
    then show ?thesis using Cons Returns by (simp add: runSegment_def)
  next
    case (Throws s)
    have "consistent s0 (r\<lparr>calls := (calls r)[i := (calls r ! i)\<lparr>stage := Settled, todo := [], threw := True\<rparr>],
        store := s, trace := trace r @ [i]\<rparr>)"
      using st Cons Throws by (intro consistent_advance [OF consistent i t st]) (auto simp: pending_def)
    then show ?thesis using Cons Throws by (simp add: runSegment_def)
  qed
qed

lemma consistent_release:
  assumes consistent: "consistent s0 r" and i: "i < length (calls r)" and st: "stage (calls r ! i) = Settled"
  shows "consistent s0 (r\<lparr>calls := (calls r)[i := (calls r ! i)\<lparr>stage := Released\<rparr>],
                   resolved := granted (calls r ! i) # resolved r\<rparr>)"
proof -
  let ?c = "(calls r ! i)\<lparr>stage := Released\<rparr>"
  let ?r = "r\<lparr>calls := (calls r)[i := ?c], resolved := granted (calls r ! i) # resolved r\<rparr>"
  from consistent have c: "chained r" and o: "ordered r" and u: "untouched r" and d: "traced r"
    and a: "agrees s0 r"
    by (simp_all add: consistent_def)
  have t: "turn r i"
    using o i st by (intro turn_holder) simp_all
  have g: "granted (calls r ! i) = Suc i"
    using c i by (simp add: chained_def)
  have rel: "(stage (calls ?r ! k) = Released) = (k = i \<or> stage (calls r ! k) = Released)"
    if "k < length (calls r)" for k
    using that by (cases "k = i") simp_all
  have "chained ?r"
  proof -
    have c1: "stateLock ?r = length (calls ?r)"
      using c by (simp add: chained_def)
    have c2: "\<forall>k < length (calls ?r). awaited (calls ?r ! k) = k \<and> granted (calls ?r ! k) = Suc k"
      using c i by (simp add: chained_def nth_list_update)
    have c3: "(p \<in> set (resolved ?r)) =
        (p = 0 \<or> (\<exists>k < length (calls ?r). p = Suc k \<and> stage (calls ?r ! k) = Released))" for p
    proof -
      have "(\<exists>k < length (calls ?r). p = Suc k \<and> stage (calls ?r ! k) = Released) =
          (\<exists>k < length (calls r). p = Suc k \<and> (k = i \<or> stage (calls r ! k) = Released))"
        using rel by (simp cong: conj_cong)
      also have "\<dots> = (p = Suc i \<or> (\<exists>k < length (calls r). p = Suc k \<and> stage (calls r ! k) = Released))"
        using i by blast
      finally have x: "(\<exists>k < length (calls ?r). p = Suc k \<and> stage (calls ?r ! k) = Released) =
          (p = Suc i \<or> (\<exists>k < length (calls r). p = Suc k \<and> stage (calls r ! k) = Released))" .
      have y: "(p \<in> set (resolved r)) =
          (p = 0 \<or> (\<exists>k < length (calls r). p = Suc k \<and> stage (calls r ! k) = Released))"
        using c unfolding chained_def by blast
      have "(p \<in> set (resolved ?r)) = (p = Suc i \<or> p \<in> set (resolved r))"
        using g by simp
      with x y show ?thesis by blast
    qed
    from c1 c2 c3 show ?thesis unfolding chained_def by blast
  qed
  moreover have "ordered ?r"
    unfolding ordered_def
  proof (intro allI impI)
    fix a b
    assume h: "a < b \<and> b < length (calls ?r) \<and> stage (calls ?r ! b) \<noteq> Queued"
    then have b: "b < length (calls r)" and ab: "a < b" by simp_all
    have "stage (calls r ! b) \<noteq> Queued"
    proof (cases "b = i")
      case True
      with st show ?thesis by simp
    next
      case False
      with h show ?thesis by simp
    qed
    with o ab b have "stage (calls r ! a) = Released"
      unfolding ordered_def by blast
    moreover from ab b have "a < length (calls r)" by simp
    ultimately show "stage (calls ?r ! a) = Released"
      using rel [of a] by simp
  qed
  moreover have "untouched ?r"
    unfolding untouched_def
  proof (intro allI impI)
    fix k
    assume k: "k < length (calls ?r)" and q: "stage (calls ?r ! k) = Queued"
    then have "k \<noteq> i" using i by auto
    with k q u show "todo (calls ?r ! k) = callback (calls ?r ! k)
        \<and> vars (calls ?r ! k) = vars0 (calls ?r ! k)"
      by (simp add: untouched_def)
  qed
  moreover have "traced ?r"
  proof -
    from d have s: "sorted (trace r)"
      and e: "\<forall>j \<in> set (trace r). j < length (calls r) \<and> stage (calls r ! j) \<noteq> Queued"
      by (simp_all add: traced_def)
    have "\<forall>j \<in> set (trace r). stage ((calls r)[i := ?c] ! j) \<noteq> Queued"
    proof
      fix j assume j: "j \<in> set (trace r)"
      show "stage ((calls r)[i := ?c] ! j) \<noteq> Queued"
      proof (cases "j = i")
        case True
        with i show ?thesis by simp
      next
        case False
        with e j show ?thesis by simp
      qed
    qed
    with s e show ?thesis by (simp add: traced_def)
  qed
  moreover have "agrees s0 ?r"
  proof -
    have "pending ?c (store r) = pending (calls r ! i) (store r)"
      using st by (simp add: pending_def)
    then have "foldl (\<lambda>s c. pending c s) (store r) ((calls r)[i := ?c])
        = foldl (\<lambda>s c. pending c s) (store r) (calls r)"
      using i t by (intro pending_update) (simp_all add: turn_def)
    moreover have "serial ((calls r)[i := ?c]) s0 = serial (calls r) s0"
      using i by (intro serial_update) simp_all
    ultimately show ?thesis using a by (simp add: agrees_def)
  qed
  ultimately show ?thesis by (simp add: consistent_def)
qed

lemma consistent_resume:
  assumes consistent: "consistent s0 r" and res: "resume i r = Some r'"
  shows "consistent s0 r'"
proof -
  from res have i: "i < length (calls r)"
    by (auto simp: resume_def split: if_splits)
  from consistent have c: "chained r" and o: "ordered r"
    by (simp_all add: consistent_def)
  show ?thesis
  proof (cases "stage (calls r ! i)")
    case Queued
    with res i have a: "awaited (calls r ! i) \<in> set (resolved r)" and r': "r' = runSegment i r"
      by (auto simp: resume_def Let_def split: if_splits)
    from turn_granted [OF c o i Queued a] consistent i Queued show ?thesis
      unfolding r' by (intro consistent_runSegment) simp_all
  next
    case Running
    with res i have r': "r' = runSegment i r"
      by (auto simp: resume_def Let_def)
    have "turn r i" using o i Running by (intro turn_holder) simp_all
    with consistent i Running show ?thesis
      unfolding r' by (intro consistent_runSegment) simp_all
  next
    case Settled
    with res i have "r' = r\<lparr>calls := (calls r)[i := (calls r ! i)\<lparr>stage := Released\<rparr>],
                   resolved := granted (calls r ! i) # resolved r\<rparr>"
      by (auto simp: resume_def Let_def)
    with consistent_release [OF consistent i Settled] show ?thesis by simp
  next
    case Released
    with res i show ?thesis by (simp add: resume_def Let_def)
  qed
qed

lemma consistent_step: "consistent s0 r \<Longrightarrow> step e r = Some r' \<Longrightarrow> consistent s0 r'"
  by (cases e) (auto simp: consistent_enter consistent_resume)

lemma consistent_run: "consistent s0 r \<Longrightarrow> run es r = Some r' \<Longrightarrow> consistent s0 r'"
proof (induction es arbitrary: r)
  case Nil
  then show ?case by simp
next
  case (Cons e es)
  then show ?case by (auto split: option.splits dest: consistent_step)
qed

lemma consistent_exclusive:
  assumes "consistent s0 r" and "i < length (calls r)" and "j < length (calls r)"
    and "holding (calls r ! i)" and "holding (calls r ! j)"
  shows "i = j"
proof (rule ccontr)
  assume "i \<noteq> j"
  then consider "i < j" | "j < i" by linarith
  then show False
  proof cases
    case 1
    from assms(5) have "stage (calls r ! j) \<noteq> Queued" by (auto simp: holding_def)
    with assms(1,3) 1 have "stage (calls r ! i) = Released"
      unfolding consistent_def ordered_def by blast
    with assms(4) show False by (simp add: holding_def)
  next
    case 2
    from assms(4) have "stage (calls r ! i) \<noteq> Queued" by (auto simp: holding_def)
    with assms(1,2) 2 have "stage (calls r ! j) = Released"
      unfolding consistent_def ordered_def by blast
    with assms(5) show False by (simp add: holding_def)
  qed
qed

lemma consistent_next_in_line:
  assumes consistent: "consistent s0 r" and i: "i < length (calls r)"
    and n: "stage (calls r ! i) \<noteq> Released" and b: "\<forall>j < i. stage (calls r ! j) = Released"
  shows "resume i r \<noteq> None"
proof (cases "stage (calls r ! i)")
  case Queued
  from consistent have c: "chained r" by (simp add: consistent_def)
  with i have a: "awaited (calls r ! i) = i" by (simp add: chained_def)
  have "i \<in> set (resolved r)"
  proof (cases i)
    case 0
    with c show ?thesis unfolding chained_def by blast
  next
    case (Suc k)
    with b i have "k < length (calls r)" "stage (calls r ! k) = Released" by simp_all
    with c Suc show ?thesis unfolding chained_def by blast
  qed
  with a Queued i show ?thesis by (simp add: resume_def Let_def)
next
  case Running
  with i show ?thesis by (simp add: resume_def Let_def)
next
  case Settled
  with i show ?thesis by (simp add: resume_def Let_def)
next
  case Released
  with n show ?thesis by simp
qed

lemma consistent_serial:
  assumes consistent: "consistent s0 r" and all: "\<forall>c \<in> set (calls r). stage c = Released"
  shows "store r = serial (calls r) s0"
  using consistent foldl_pending_released [OF all, of "store r"]
  by (simp add: consistent_def agrees_def)

section \<open>Key unwrapping and the iteration floor\<close>

text \<open>
  C6 (as the code has it). \<open>unwrapDataKey\<close> derives the wrapping key from the
  iteration count stored in the record, exactly as stored (the default of the settings
  when the count is missing or zero): \<open>deriveWrappingKey\<close> is called with
  \<open>enforceFloor = false\<close>, so a count below \<open>MIN_ITERATIONS\<close> is not clamped. The
  floor applies where \<open>deriveWrappingKey\<close> is called with \<open>enforceFloor\<close>, as
  \<open>wrapDataKey\<close> does: there the count is raised to at least 150000.
\<close>

theorem unwrapDataKey_uses_stored_iterations:
  assumes "isValidKeyRecord E (Some record)"
  shows "fst (unwrapDataKey E passkey record w) =
           (case aesUnwrap E
                   (pbkdf2 E passkey (the (keySalt record))
                      (orDefault (iterations record) (defaultIterations E)))
                   (the (keyIV record)) (the (encryptedKey record)) of
              None \<Rightarrow> Inl (Error ''OperationError'')
            | Some raw \<Rightarrow> Inr raw)
         \<and> deriveWrappingKey E passkey salt iters True =
             pbkdf2 E passkey salt (max (orDefault iters (defaultIterations E)) MIN_ITERATIONS)
         \<and> MIN_ITERATIONS \<le> max (orDefault iters (defaultIterations E)) MIN_ITERATIONS"
  using assms
  by (simp add: unwrapDataKey_def deriveWrappingKey_def orDefault_def Let_def
      split: option.splits)

theorem unwrapDataKey_uses_stored_iterations_witness:
  "isValidKeyRecord decimalEnv (Some weakRecord)
   \<and> fst (unwrapDataKey decimalEnv ''pw'' weakRecord freshWorld) = Inr 7
   \<and> deriveWrappingKey decimalEnv ''pw'' ''salt'' (Some 1000) True = 150000"
proof -
  have valid: "isValidKeyRecord decimalEnv (Some weakRecord)"
    by (simp add: isValidKeyRecord_def weakRecord_def)
  note inst = unwrapDataKey_uses_stored_iterations
    [OF valid, of "''pw''" freshWorld "''salt''" "Some 1000"]
  have "fst (unwrapDataKey decimalEnv ''pw'' weakRecord freshWorld) = Inr 7"
    using inst by (simp add: weakRecord_def orDefault_def)
  moreover have "deriveWrappingKey decimalEnv ''pw'' ''salt'' (Some 1000) True = 150000"
    using inst by (simp add: orDefault_def MIN_ITERATIONS_def)
  ultimately show ?thesis using valid by simp
qed

text \<open>
  The claim as the specification words it fails: the record below stores 1000
  iterations, the wrapped key opens under the key derived with 1000 iterations and not
  under the one derived with the floor, and \<open>unwrapDataKey\<close> opens it.
\<close>

theorem unwrapDataKey_floor_counterexample:
  "fst (unwrapDataKey decimalEnv ''pw'' weakRecord freshWorld) = Inr 7
   \<and> deriveWrappingKey decimalEnv ''pw'' ''salt''
        (Some (orDefault (iterations weakRecord) (defaultIterations decimalEnv))) False = 1000
   \<and> pbkdf2 decimalEnv ''pw'' ''salt'' (max 1000 MIN_ITERATIONS) = 150000
   \<and> aesUnwrap decimalEnv 150000 ''iv'' ''wrapped'' = None"
  by (simp add: unwrapDataKey_def deriveWrappingKey_def orDefault_def Let_def
      isValidKeyRecord_def weakRecord_def MIN_ITERATIONS_def)

section \<open>Blocked writes\<close>

text \<open>
  C7 (as the code has it). When encryption is locked or the state is marked corrupt,
  \<open>saveState\<close> throws: an \<open>Error\<close> whose message is the blocking reason. It has
  replaced \<open>cachedState\<close> by then and has written nothing to storage. The structured
  result \<open>{ok: false, locked: true, reason}\<close> with that reason is what
  \<open>lockedMutationResponse\<close> returns in the same state.
\<close>

theorem saveState_blocked_throws:
  assumes "stateIsLocked w \<or> stateIsCorrupt w"
  shows "\<exists>reason. reason \<noteq> []
           \<and> stateWriteBlockedReason w = Some reason
           \<and> saveState E state w = (Inl (Error reason), w\<lparr>cachedState := state\<rparr>)
           \<and> lockedMutationResponse False w = RespLocked reason
           \<and> \<not> stateIsWritable w"
proof -
  from assms obtain reason where r: "stateWriteBlockedReason w = Some reason"
    using blocked_iff [of w] by auto
  have "saveState E state w = (Inl (Error reason), w\<lparr>cachedState := state\<rparr>)"
    using r by (simp add: saveState_def saveStateInternal_def)
  moreover have "lockedMutationResponse False w = RespLocked reason"
    using r blocked_reason_nonempty [OF r] by (simp add: lockedMutationResponse_def orText_def)
  ultimately show ?thesis
    using r blocked_reason_nonempty [OF r] by (simp add: stateIsWritable_def)
qed

theorem saveState_blocked_throws_witness:
  "stateIsLocked lockedWorld
   \<and> stateWriteBlockedReason lockedWorld = Some ''passkey-required''
   \<and> saveState decimalEnv (mkState []) lockedWorld =
       (Inl (Error ''passkey-required''), lockedWorld\<lparr>cachedState := mkState []\<rparr>)
   \<and> lockedMutationResponse False lockedWorld = RespLocked ''passkey-required''"
proof -
  have locked: "stateIsLocked lockedWorld"
    by (simp add: stateIsLocked_def encryptionIsLocked_def lockedWorld_def freshWorld_def)
  have reason: "stateWriteBlockedReason lockedWorld = Some ''passkey-required''"
    by (simp add: stateWriteBlockedReason_def stateIsCorrupt_def stateLockReason_def
        stateIsLocked_def encryptionIsLocked_def encryptionReason_def orText_def
        lockedWorld_def freshWorld_def)
  from saveState_blocked_throws [of lockedWorld decimalEnv "mkState []"] locked reason
  show ?thesis by auto
qed

text \<open>The claim as the specification words it fails: with encryption locked,
  \<open>saveState\<close> ends in an exception, not in a result.\<close>

theorem saveState_blocked_counterexample:
  "stateIsLocked lockedWorld
   \<and> fst (saveState decimalEnv (mkState []) lockedWorld) = Inl (Error ''passkey-required'')"
  by (simp add: saveState_def saveStateInternal_def stateWriteBlockedReason_def
      stateIsCorrupt_def stateLockReason_def stateIsLocked_def encryptionIsLocked_def
      encryptionReason_def orText_def lockedWorld_def freshWorld_def)

section \<open>The one-shot resume token\<close>

text \<open>
  C1. Take a writable world whose cached state holds, under the item id, an entry
  (an object) whose token is the presented one, whose \<open>tokenUsed\<close> is false and
  whose token has not expired, in a state that \<open>saveState\<close> can encode. If the
  resume action succeeds (and nothing else touches the state meanwhile), the message is
  answered \<open>{ok: true}\<close>, the entry is gone from the state, and a second attempt with
  the same token is answered \<open>invalid-token\<close>. If the resume action fails, the
  answer is \<open>resume-failed\<close>, the entry is still there with \<open>tokenUsed\<close> true, and
  a second attempt is answered \<open>used\<close> and changes nothing, whatever the resume
  action would do then.
\<close>

theorem one_shot_token:
  assumes wr: "stateIsWritable w"
    and st: "cachedState w = JObj sps"
    and tabs: "map_of sps ''suspendedTabs'' = Some (JObj tabs)"
    and key: "key = numberToString E tabId"
    and ent: "map_of tabs key = Some (JObj props)"
    and tok: "strictEq (getProp (JObj props) ''token'') token"
    and unused: "\<not> truthy (getProp (JObj props) ''tokenUsed'')"
    and fresh: "tokenExpired E nowv (orElse (getProp (JObj props) ''tokenIssuedAt'')
                  (getProp (JObj props) ''suspendedAt'')) ttl = Inr False"
    and enc: "succeeds (encodeStateV2 E (JObj sps))"
    and used: "used = setProp ''tokenUsed'' (JBool True) (JObj props)"
    and res: "reserved = putTab key used (JObj sps)"
    and wR: "wReserved = w\<lparr>cachedState := reserved, localState := storedPayload E reserved w\<rparr>"
    and fin: "final = deleteTab key reserved"
    and wD: "wDone = wReserved\<lparr>cachedState := final,
                localState := storedPayload E final wReserved\<rparr>"
  shows "processUnsuspendTokenMessage E (\<lambda>i m x. (True, x)) nowv tabId token ttl w
           = (Inr RespOk, wDone)
       \<and> getProp (getProp (cachedState wDone) ''suspendedTabs'') key = JUndefined
       \<and> processUnsuspendTokenMessage E api2 nowv2 tabId token ttl2 wDone
           = (Inr (RespError ''invalid-token''), wDone)
       \<and> processUnsuspendTokenMessage E (\<lambda>i m x. (False, x)) nowv tabId token ttl w
           = (Inr (RespError ''resume-failed''), wReserved)
       \<and> getProp (getProp (getProp (cachedState wReserved) ''suspendedTabs'') key) ''tokenUsed''
           = JBool True
       \<and> processUnsuspendTokenMessage E api2 nowv2 tabId token ttl2 wReserved
           = (Inr (RespError ''used''), wReserved)"
  by (rule token_flow_contract [OF assms])

theorem one_shot_token_witness:
  "stateIsWritable parkedWorld
   \<and> fst (processUnsuspendTokenMessage decimalEnv (\<lambda>i m x. (True, x)) (Fin 2000) (Fin 1)
           (JStr ''t1'') (Fin 100000) parkedWorld) = Inr RespOk
   \<and> fst (processUnsuspendTokenMessage decimalEnv (\<lambda>i m x. (True, x)) (Fin 2000) (Fin 1)
           (JStr ''t1'') (Fin 100000)
           (snd (processUnsuspendTokenMessage decimalEnv (\<lambda>i m x. (True, x)) (Fin 2000) (Fin 1)
              (JStr ''t1'') (Fin 100000) parkedWorld))) = Inr (RespError ''invalid-token'')
   \<and> fst (processUnsuspendTokenMessage decimalEnv (\<lambda>i m x. (False, x)) (Fin 2000) (Fin 1)
           (JStr ''t1'') (Fin 100000) parkedWorld) = Inr (RespError ''resume-failed'')
   \<and> fst (processUnsuspendTokenMessage decimalEnv (\<lambda>i m x. (True, x)) (Fin 2000) (Fin 1)
           (JStr ''t1'') (Fin 100000)
           (snd (processUnsuspendTokenMessage decimalEnv (\<lambda>i m x. (False, x)) (Fin 2000) (Fin 1)
              (JStr ''t1'') (Fin 100000) parkedWorld))) = Inr (RespError ''used'')"
proof -
  have wr: "stateIsWritable parkedWorld"
    unfolding parkedWorld_def by (rule unlockedWorld_writable)
  have st: "cachedState parkedWorld = JObj [(''suspendedTabs'', JObj [(''1'', JObj parkedProps)])]"
    by (simp add: parkedWorld_def mkState_def)
  have tabs: "map_of [(''suspendedTabs'', JObj [(''1'', JObj parkedProps)])] ''suspendedTabs''
      = Some (JObj [(''1'', JObj parkedProps)])"
    by simp
  have key: "''1'' = numberToString decimalEnv (Fin 1)"
    by (simp add: key_one)
  have ent: "map_of [(''1'', JObj parkedProps)] ''1'' = Some (JObj parkedProps)"
    by simp
  have tok: "strictEq (getProp (JObj parkedProps) ''token'') (JStr ''t1'')"
    by (simp del: getProp.simps)
  have unused: "\<not> truthy (getProp (JObj parkedProps) ''tokenUsed'')"
    by (simp del: getProp.simps)
  have fresh: "tokenExpired decimalEnv (Fin 2000)
      (orElse (getProp (JObj parkedProps) ''tokenIssuedAt'')
         (getProp (JObj parkedProps) ''suspendedAt''))
      (Fin 100000) = Inr False"
    by (simp add: tokenExpired_def orElse_def del: getProp.simps)
  note inst = one_shot_token [OF wr st tabs key ent tok unused fresh parkedState_encodes
      refl refl refl refl refl, of "\<lambda>i m x. (True, x)" "Fin 2000" "Fin 100000"]
  from inst have a: "fst (processUnsuspendTokenMessage decimalEnv (\<lambda>i m x. (True, x)) (Fin 2000)
      (Fin 1) (JStr ''t1'') (Fin 100000) parkedWorld) = Inr RespOk"
    by (simp only: fst_conv)
  from inst have b: "fst (processUnsuspendTokenMessage decimalEnv (\<lambda>i m x. (False, x)) (Fin 2000)
      (Fin 1) (JStr ''t1'') (Fin 100000) parkedWorld) = Inr (RespError ''resume-failed'')"
    by (simp only: fst_conv)
  from inst have c: "fst (processUnsuspendTokenMessage decimalEnv (\<lambda>i m x. (True, x)) (Fin 2000)
      (Fin 1) (JStr ''t1'') (Fin 100000)
      (snd (processUnsuspendTokenMessage decimalEnv (\<lambda>i m x. (True, x)) (Fin 2000) (Fin 1)
              (JStr ''t1'') (Fin 100000) parkedWorld))) = Inr (RespError ''invalid-token'')"
    by (simp only: fst_conv snd_conv)
  from inst have d: "fst (processUnsuspendTokenMessage decimalEnv (\<lambda>i m x. (True, x)) (Fin 2000)
      (Fin 1) (JStr ''t1'') (Fin 100000)
      (snd (processUnsuspendTokenMessage decimalEnv (\<lambda>i m x. (False, x)) (Fin 2000) (Fin 1)
              (JStr ''t1'') (Fin 100000) parkedWorld))) = Inr (RespError ''used'')"
    by (simp only: fst_conv snd_conv)
  from wr a b c d show ?thesis by simp
qed

section \<open>Token expiry\<close>

text \<open>
  C2 (as the code has it). Take a writable world whose cached state holds, under the
  item id, an entry whose token is the presented one and whose \<open>tokenUsed\<close> is
  false. If \<open>tokenTtlMs\<close> is not zero, the issue time (\<open>tokenIssuedAt\<close>, or
  \<open>suspendedAt\<close> when that is missing or zero) is known and not zero, and
  \<open>now - issuedAt > tokenTtlMs\<close> holds for the difference as the code computes it,
  rounded to a double, then the message is answered \<open>expired\<close> and the world is left
  as it was: \<open>tokenUsed\<close> is still false and nothing is written. (Timestamps are
  integers far below \<open>2\<^sup>5\<^sup>3\<close>, where the difference is exact.)
\<close>

theorem expired_token_not_consumed:
  assumes wr: "stateIsWritable w"
    and st: "cachedState w = JObj sps"
    and tabs: "map_of sps ''suspendedTabs'' = Some (JObj tabs)"
    and ent: "map_of tabs (numberToString E tabId) = Some entry"
    and there: "truthy entry"
    and tok: "strictEq (getProp entry ''token'') token"
    and unused: "\<not> truthy (getProp entry ''tokenUsed'')"
    and ttl: "truthy (JNum ttl)"
    and issued: "issuedAt = orElse (getProp entry ''tokenIssuedAt'') (getProp entry ''suspendedAt'')"
    and known: "truthy issuedAt"
    and num: "Number E issuedAt = Inr i"
    and late: "numGreater (numMinus nowv i) ttl"
  shows "processUnsuspendTokenMessage E api nowv tabId token ttl w
           = (Inr (RespError ''expired''), w)"
proof -
  have load: "loadState E w = (Inr (JObj sps), w)"
    using writable_truthy_load [OF wr, of E] st by simp
  have entry: "getProp (getProp (JObj sps) ''suspendedTabs'') (numberToString E tabId) = entry"
    using tabs ent by simp
  have ex: "tokenExpired E nowv (orElse (getProp entry ''tokenIssuedAt'')
      (getProp entry ''suspendedAt'')) ttl = Inr True"
    using ttl known num late unfolding issued by (simp add: tokenExpired_def)
  show ?thesis
    using wr load entry there tok unused ex
    by (simp add: processUnsuspendTokenMessage_def prepareResult_def Let_def
        del: getProp.simps)
qed

theorem expired_token_not_consumed_witness:
  "stateIsWritable parkedWorld
   \<and> numGreater (numMinus (Fin 200000) (Fin 1000)) (Fin 100000)
   \<and> processUnsuspendTokenMessage decimalEnv (\<lambda>i m x. (True, x)) (Fin 200000) (Fin 1)
         (JStr ''t1'') (Fin 100000) parkedWorld = (Inr (RespError ''expired''), parkedWorld)"
proof -
  have wr: "stateIsWritable parkedWorld"
    unfolding parkedWorld_def by (rule unlockedWorld_writable)
  have st: "cachedState parkedWorld = JObj [(''suspendedTabs'', JObj [(''1'', JObj parkedProps)])]"
    by (simp add: parkedWorld_def mkState_def)
  have tabs: "map_of [(''suspendedTabs'', JObj [(''1'', JObj parkedProps)])] ''suspendedTabs''
      = Some (JObj [(''1'', JObj parkedProps)])"
    by simp
  have ent: "map_of [(''1'', JObj parkedProps)] (numberToString decimalEnv (Fin 1))
      = Some (JObj parkedProps)"
    by (simp add: key_one)
  have tok: "strictEq (getProp (JObj parkedProps) ''token'') (JStr ''t1'')"
    by (simp del: getProp.simps)
  have unused: "\<not> truthy (getProp (JObj parkedProps) ''tokenUsed'')"
    by (simp del: getProp.simps)
  have issued: "JNum (Fin 1000) = orElse (getProp (JObj parkedProps) ''tokenIssuedAt'')
      (getProp (JObj parkedProps) ''suspendedAt'')"
    by (simp add: orElse_def del: getProp.simps)
  have late: "numGreater (numMinus (Fin 200000) (Fin 1000)) (Fin 100000)"
    by simp
  have "processUnsuspendTokenMessage decimalEnv (\<lambda>i m x. (True, x)) (Fin 200000) (Fin 1)
         (JStr ''t1'') (Fin 100000) parkedWorld = (Inr (RespError ''expired''), parkedWorld)"
    by (rule expired_token_not_consumed [OF wr st tabs ent _ tok unused _ issued _ _ late])
       simp_all
  with wr late show ?thesis by simp
qed

text \<open>
  The claim as the specification words it fails, because the test is guarded by
  \<open>tokenTtlMs && issuedAt\<close>: with a time-to-live of zero, and with an issue time of
  zero under the 24 hour time-to-live, \<open>now - issuedAt > ttl\<close> holds and the token is
  accepted and consumed. And the difference is the one the engine computes: for the
  clock reading \<open>2\<^sup>5\<^sup>3 + 2\<close>, the issue time 1 and the time-to-live \<open>2\<^sup>5\<^sup>3\<close> the exact
  difference exceeds the time-to-live, the double difference does not, and the token is
  accepted.
\<close>

theorem expiry_guard_counterexample:
  "numGreater (numMinus (Fin 2000) (Fin 1000)) (Fin 0)
   \<and> fst (processUnsuspendTokenMessage decimalEnv (\<lambda>i m x. (True, x)) (Fin 2000) (Fin 1)
           (JStr ''t1'') (Fin 0) parkedWorld) = Inr RespOk
   \<and> numGreater (numMinus (Fin 1000000000000) (Fin 0)) (Fin 86400000)
   \<and> fst (processUnsuspendTokenMessage decimalEnv (\<lambda>i m x. (True, x)) (Fin 1000000000000)
           (Fin 1) (JStr ''t1'') (Fin 86400000) undatedWorld) = Inr RespOk
   \<and> (9007199254740992 :: rat) < 9007199254740994 - 1
   \<and> fst (processUnsuspendTokenMessage decimalEnv (\<lambda>i m x. (True, x)) (Fin 9007199254740994)
           (Fin 1) (JStr ''t1'') (Fin 9007199254740992) earlyWorld) = Inr RespOk"
proof -
  have key: "''1'' = numberToString decimalEnv (Fin 1)"
    by (simp add: key_one)
  have wr: "stateIsWritable parkedWorld"
    unfolding parkedWorld_def by (rule unlockedWorld_writable)
  have st: "cachedState parkedWorld = JObj [(''suspendedTabs'', JObj [(''1'', JObj parkedProps)])]"
    by (simp add: parkedWorld_def mkState_def)
  have tabs: "map_of [(''suspendedTabs'', JObj [(''1'', JObj parkedProps)])] ''suspendedTabs''
      = Some (JObj [(''1'', JObj parkedProps)])"
    by simp
  have ent: "map_of [(''1'', JObj parkedProps)] ''1'' = Some (JObj parkedProps)"
    by simp
  have tok: "strictEq (getProp (JObj parkedProps) ''token'') (JStr ''t1'')"
    by (simp del: getProp.simps)
  have unused: "\<not> truthy (getProp (JObj parkedProps) ''tokenUsed'')"
    by (simp del: getProp.simps)
  have fresh: "tokenExpired decimalEnv (Fin 2000)
      (orElse (getProp (JObj parkedProps) ''tokenIssuedAt'')
         (getProp (JObj parkedProps) ''suspendedAt'')) (Fin 0) = Inr False"
    by (simp add: tokenExpired_def)
  note a = token_flow_contract [OF wr st tabs key ent tok unused fresh parkedState_encodes
      refl refl refl refl refl, of "\<lambda>i m x. (True, x)" "Fin 2000" "Fin 0"]
  from a have r1: "fst (processUnsuspendTokenMessage decimalEnv (\<lambda>i m x. (True, x)) (Fin 2000)
      (Fin 1) (JStr ''t1'') (Fin 0) parkedWorld) = Inr RespOk"
    by (simp only: fst_conv)
  have wr2: "stateIsWritable undatedWorld"
    unfolding undatedWorld_def by (rule unlockedWorld_writable)
  have st2: "cachedState undatedWorld = JObj [(''suspendedTabs'', JObj [(''1'', JObj undatedProps)])]"
    by (simp add: undatedWorld_def mkState_def)
  have tabs2: "map_of [(''suspendedTabs'', JObj [(''1'', JObj undatedProps)])] ''suspendedTabs''
      = Some (JObj [(''1'', JObj undatedProps)])"
    by simp
  have ent2: "map_of [(''1'', JObj undatedProps)] ''1'' = Some (JObj undatedProps)"
    by simp
  have tok2: "strictEq (getProp (JObj undatedProps) ''token'') (JStr ''t1'')"
    by (simp del: getProp.simps)
  have unused2: "\<not> truthy (getProp (JObj undatedProps) ''tokenUsed'')"
    by (simp del: getProp.simps)
  have fresh2: "tokenExpired decimalEnv (Fin 1000000000000)
      (orElse (getProp (JObj undatedProps) ''tokenIssuedAt'')
         (getProp (JObj undatedProps) ''suspendedAt'')) (Fin 86400000) = Inr False"
    by (simp add: tokenExpired_def orElse_def del: getProp.simps)
  note b = token_flow_contract [OF wr2 st2 tabs2 key ent2 tok2 unused2 fresh2 undated_encodes
      refl refl refl refl refl, of "\<lambda>i m x. (True, x)" "Fin 2000" "Fin 0"]
  from b have r2: "fst (processUnsuspendTokenMessage decimalEnv (\<lambda>i m x. (True, x))
      (Fin 1000000000000) (Fin 1) (JStr ''t1'') (Fin 86400000) undatedWorld) = Inr RespOk"
    by (simp only: fst_conv)
  have wr3: "stateIsWritable earlyWorld"
    unfolding earlyWorld_def by (rule unlockedWorld_writable)
  have st3: "cachedState earlyWorld = JObj [(''suspendedTabs'', JObj [(''1'', JObj earlyProps)])]"
    by (simp add: earlyWorld_def mkState_def)
  have tabs3: "map_of [(''suspendedTabs'', JObj [(''1'', JObj earlyProps)])] ''suspendedTabs''
      = Some (JObj [(''1'', JObj earlyProps)])"
    by simp
  have ent3: "map_of [(''1'', JObj earlyProps)] ''1'' = Some (JObj earlyProps)"
    by simp
  have tok3: "strictEq (getProp (JObj earlyProps) ''token'') (JStr ''t1'')"
    by (simp del: getProp.simps)
  have unused3: "\<not> truthy (getProp (JObj earlyProps) ''tokenUsed'')"
    by (simp del: getProp.simps)
  have fresh3: "tokenExpired decimalEnv (Fin 9007199254740994)
      (orElse (getProp (JObj earlyProps) ''tokenIssuedAt'')
         (getProp (JObj earlyProps) ''suspendedAt'')) (Fin 9007199254740992) = Inr False"
    using numMinus_rounds
    by (simp add: tokenExpired_def orElse_def del: getProp.simps numMinus.simps numMinus_safe)
  note c = token_flow_contract [OF wr3 st3 tabs3 key ent3 tok3 unused3 fresh3 early_encodes
      refl refl refl refl refl, of "\<lambda>i m x. (True, x)" "Fin 2000" "Fin 0"]
  from c have r3: "fst (processUnsuspendTokenMessage decimalEnv (\<lambda>i m x. (True, x))
      (Fin 9007199254740994) (Fin 1) (JStr ''t1'') (Fin 9007199254740992) earlyWorld) = Inr RespOk"
    by (simp only: fst_conv)
  from r1 r2 r3 show ?thesis by simp
qed

section \<open>The finalize phase\<close>

text \<open>
  C8 (as the code has it). When the token has been reserved and the resume action
  succeeds, the message is answered by the finalize phase, run in the world the resume
  action left. The finalize phase tests \<open>stateIsWritable\<close> again. If the state is
  blocked by then it answers with the locked result and changes nothing. Otherwise it
  loads the state again and deletes whatever entry is stored under the item id: it is
  never given the token and compares nothing. Every other entry is left as it is, and
  the state is saved.
\<close>

theorem finalize_deletes_whatever_is_stored:
  "(stateIsWritable w0
      \<and> prepareResult E nowv tabId token ttl w0 = (Inr (Reserved used), w1)
      \<and> truthy used \<and> api tabId used w1 = (True, w) \<longrightarrow>
      processUnsuspendTokenMessage E api nowv tabId token ttl w0 = finalizeResult E tabId w)
   \<and> (\<not> stateIsWritable w \<longrightarrow>
      finalizeResult E tabId w = (Inr (lockedMutationResponse False w), w))
   \<and> (stateIsWritable w \<and> cachedState w = JObj sps
        \<and> map_of sps ''suspendedTabs'' = Some (JObj tabs)
        \<and> succeeds (encodeStateV2 E (JObj sps))
        \<and> final = deleteTab (numberToString E tabId) (JObj sps) \<longrightarrow>
      finalizeResult E tabId w =
        (Inr RespOk, w\<lparr>cachedState := final, localState := storedPayload E final w\<rparr>)
      \<and> getProp (getProp final ''suspendedTabs'') (numberToString E tabId) = JUndefined
      \<and> (\<forall>k. k \<noteq> numberToString E tabId \<longrightarrow>
            getProp (getProp final ''suspendedTabs'') k = getProp (JObj tabs) k))"
proof (intro conjI impI)
  assume "stateIsWritable w0
      \<and> prepareResult E nowv tabId token ttl w0 = (Inr (Reserved used), w1)
      \<and> truthy used \<and> api tabId used w1 = (True, w)"
  then show "processUnsuspendTokenMessage E api nowv tabId token ttl w0 = finalizeResult E tabId w"
    using process_after_prepare [of w0 E nowv tabId token ttl used w1 api] by simp
next
  assume "\<not> stateIsWritable w"
  then show "finalizeResult E tabId w = (Inr (lockedMutationResponse False w), w)"
    by (simp add: finalizeResult_def)
next
  assume h: "stateIsWritable w \<and> cachedState w = JObj sps
        \<and> map_of sps ''suspendedTabs'' = Some (JObj tabs)
        \<and> succeeds (encodeStateV2 E (JObj sps))
        \<and> final = deleteTab (numberToString E tabId) (JObj sps)"
  then have wr: "stateIsWritable w" and st: "cachedState w = JObj sps"
    and tabs: "map_of sps ''suspendedTabs'' = Some (JObj tabs)"
    and enc: "succeeds (encodeStateV2 E (JObj sps))"
    and fin: "final = deleteTab (numberToString E tabId) (JObj sps)"
    by simp_all
  have eq: "final = JObj (AList.update ''suspendedTabs''
      (JObj (AList.delete (numberToString E tabId) tabs)) sps)"
    unfolding fin by (rule deleteTab_JObj [OF tabs])
  show "finalizeResult E tabId w =
        (Inr RespOk, w\<lparr>cachedState := final, localState := storedPayload E final w\<rparr>)"
    by (rule finalize_deletes [OF wr st tabs enc fin])
  show "getProp (getProp final ''suspendedTabs'') (numberToString E tabId) = JUndefined"
    by (simp add: eq update_conv' delete_conv')
  show "\<forall>k. k \<noteq> numberToString E tabId \<longrightarrow>
            getProp (getProp final ''suspendedTabs'') k = getProp (JObj tabs) k"
    by (simp add: eq update_conv' delete_conv')
qed

theorem finalize_deletes_whatever_is_stored_witness:
  "stateIsWritable (unlockedWorld\<lparr>cachedState := mkState [(''1'', JObj reparkedProps)]\<rparr>)
   \<and> fst (finalizeResult decimalEnv (Fin 1)
        (unlockedWorld\<lparr>cachedState := mkState [(''1'', JObj reparkedProps)]\<rparr>)) = Inr RespOk
   \<and> getProp (getProp (deleteTab ''1'' (mkState [(''1'', JObj reparkedProps)])) ''suspendedTabs'') ''1''
        = JUndefined
   \<and> \<not> stateIsWritable (lockedWorld\<lparr>cachedState := mkState [(''1'', JObj reparkedProps)]\<rparr>)
   \<and> finalizeResult decimalEnv (Fin 1)
        (lockedWorld\<lparr>cachedState := mkState [(''1'', JObj reparkedProps)]\<rparr>)
        = (Inr (RespLocked ''passkey-required''),
           lockedWorld\<lparr>cachedState := mkState [(''1'', JObj reparkedProps)]\<rparr>)
   \<and> stateIsWritable parkedWorld
   \<and> fst (processUnsuspendTokenMessage decimalEnv lockingApi (Fin 2000) (Fin 1) (JStr ''t1'')
        (Fin 100000) parkedWorld) = Inr (RespLocked ''passkey-required'')
   \<and> getProp (getProp (getProp (cachedState (snd (processUnsuspendTokenMessage decimalEnv
        lockingApi (Fin 2000) (Fin 1) (JStr ''t1'') (Fin 100000) parkedWorld)))
        ''suspendedTabs'') ''1'') ''tokenUsed'' = JBool True"
proof -
  let ?w = "unlockedWorld\<lparr>cachedState := mkState [(''1'', JObj reparkedProps)]\<rparr>"
  let ?l = "lockedWorld\<lparr>cachedState := mkState [(''1'', JObj reparkedProps)]\<rparr>"
  have wr: "stateIsWritable ?w" by (rule unlockedWorld_writable)
  have st: "cachedState ?w = JObj [(''suspendedTabs'', JObj [(''1'', JObj reparkedProps)])]"
    by (simp add: mkState_def)
  have tabs: "map_of [(''suspendedTabs'', JObj [(''1'', JObj reparkedProps)])] ''suspendedTabs''
      = Some (JObj [(''1'', JObj reparkedProps)])"
    by simp
  have hyp: "stateIsWritable ?w
      \<and> cachedState ?w = JObj [(''suspendedTabs'', JObj [(''1'', JObj reparkedProps)])]
      \<and> map_of [(''suspendedTabs'', JObj [(''1'', JObj reparkedProps)])] ''suspendedTabs''
          = Some (JObj [(''1'', JObj reparkedProps)])
      \<and> succeeds (encodeStateV2 decimalEnv
            (JObj [(''suspendedTabs'', JObj [(''1'', JObj reparkedProps)])]))
      \<and> deleteTab (numberToString decimalEnv (Fin 1))
            (JObj [(''suspendedTabs'', JObj [(''1'', JObj reparkedProps)])])
          = deleteTab (numberToString decimalEnv (Fin 1))
            (JObj [(''suspendedTabs'', JObj [(''1'', JObj reparkedProps)])])"
    using wr st tabs reparked_encodes by blast
  note inst = finalize_deletes_whatever_is_stored [where w = ?w and E = decimalEnv
      and tabId = "Fin 1"
      and sps = "[(''suspendedTabs'', JObj [(''1'', JObj reparkedProps)])]"
      and tabs = "[(''1'', JObj reparkedProps)]"
      and final = "deleteTab (numberToString decimalEnv (Fin 1))
            (JObj [(''suspendedTabs'', JObj [(''1'', JObj reparkedProps)])])"]
  from inst hyp have a: "fst (finalizeResult decimalEnv (Fin 1) ?w) = Inr RespOk"
    by (simp only: fst_conv)
  from inst hyp have b: "getProp (getProp (deleteTab ''1'' (mkState [(''1'', JObj reparkedProps)]))
      ''suspendedTabs'') ''1'' = JUndefined"
    by (simp only: key_one mkState_def)
  have reason: "stateWriteBlockedReason ?l = Some ''passkey-required''"
    by (simp add: stateWriteBlockedReason_def stateIsCorrupt_def stateLockReason_def
        stateIsLocked_def encryptionIsLocked_def encryptionReason_def orText_def
        lockedWorld_def freshWorld_def)
  then have nw: "\<not> stateIsWritable ?l"
    by (simp add: stateIsWritable_def)
  have "lockedMutationResponse False ?l = RespLocked ''passkey-required''"
    using reason by (simp add: lockedMutationResponse_def orText_def)
  with finalize_deletes_whatever_is_stored [where w = ?l and E = decimalEnv and tabId = "Fin 1"] nw
  have c: "finalizeResult decimalEnv (Fin 1) ?l = (Inr (RespLocked ''passkey-required''), ?l)"
    by simp
  let ?used = "setProp ''tokenUsed'' (JBool True) (JObj parkedProps)"
  let ?sps = "[(''suspendedTabs'', JObj [(''1'', JObj parkedProps)])]"
  let ?reserved = "putTab (numberToString decimalEnv (Fin 1)) ?used (JObj ?sps)"
  let ?w1 = "parkedWorld\<lparr>cachedState := ?reserved,
      localState := storedPayload decimalEnv ?reserved parkedWorld\<rparr>"
  let ?w2 = "?w1\<lparr>encryptionLocked := True, encryptionLockReason := Some ''passkey-required''\<rparr>"
  have pwr: "stateIsWritable parkedWorld"
    unfolding parkedWorld_def by (rule unlockedWorld_writable)
  have pst: "cachedState parkedWorld = JObj ?sps"
    by (simp add: parkedWorld_def mkState_def)
  have ptabs: "map_of ?sps ''suspendedTabs'' = Some (JObj [(''1'', JObj parkedProps)])"
    by simp
  have ent: "map_of [(''1'', JObj parkedProps)] (numberToString decimalEnv (Fin 1))
      = Some (JObj parkedProps)"
    by (simp add: key_one)
  have tok: "strictEq (getProp (JObj parkedProps) ''token'') (JStr ''t1'')"
    by (simp del: getProp.simps)
  have unused: "\<not> truthy (getProp (JObj parkedProps) ''tokenUsed'')"
    by (simp del: getProp.simps)
  have fresh: "tokenExpired decimalEnv (Fin 2000)
      (orElse (getProp (JObj parkedProps) ''tokenIssuedAt'')
         (getProp (JObj parkedProps) ''suspendedAt'')) (Fin 100000) = Inr False"
    by (simp add: tokenExpired_def orElse_def del: getProp.simps)
  have prep: "prepareResult decimalEnv (Fin 2000) (Fin 1) (JStr ''t1'') (Fin 100000) parkedWorld
      = (Inr (Reserved ?used), ?w1)"
    by (rule prepare_reserves [OF pwr pst ptabs ent tok unused fresh parkedState_encodes refl refl])
  have api: "lockingApi (Fin 1) ?used ?w1 = (True, ?w2)"
    by (simp add: lockingApi_def)
  have tu: "truthy ?used" by simp
  have proc: "processUnsuspendTokenMessage decimalEnv lockingApi (Fin 2000) (Fin 1) (JStr ''t1'')
        (Fin 100000) parkedWorld = finalizeResult decimalEnv (Fin 1) ?w2"
    using finalize_deletes_whatever_is_stored [where ?w0.0 = parkedWorld and E = decimalEnv
        and nowv = "Fin 2000" and tabId = "Fin 1" and token = "JStr ''t1''" and ttl = "Fin 100000"
        and used = ?used and ?w1.0 = ?w1 and api = lockingApi and w = ?w2]
      pwr prep tu api
    by blast
  have reason2: "stateWriteBlockedReason ?w2 = Some ''passkey-required''"
    by (simp add: stateWriteBlockedReason_def stateIsCorrupt_def stateLockReason_def
        stateIsLocked_def encryptionIsLocked_def encryptionReason_def orText_def
        parkedWorld_def unlockedWorld_def freshWorld_def)
  then have nw2: "\<not> stateIsWritable ?w2"
    by (simp add: stateIsWritable_def)
  have lm2: "lockedMutationResponse False ?w2 = RespLocked ''passkey-required''"
    using reason2 by (simp add: lockedMutationResponse_def orText_def)
  have fin2: "finalizeResult decimalEnv (Fin 1) ?w2 = (Inr (RespLocked ''passkey-required''), ?w2)"
    using finalize_deletes_whatever_is_stored [where w = ?w2 and E = decimalEnv and tabId = "Fin 1"]
      nw2 lm2
    by simp
  have d: "fst (processUnsuspendTokenMessage decimalEnv lockingApi (Fin 2000) (Fin 1) (JStr ''t1'')
        (Fin 100000) parkedWorld) = Inr (RespLocked ''passkey-required'')"
    by (simp only: proc fin2 fst_conv)
  have "cachedState (snd (processUnsuspendTokenMessage decimalEnv lockingApi (Fin 2000) (Fin 1)
        (JStr ''t1'') (Fin 100000) parkedWorld)) = ?reserved"
    by (simp only: proc fin2 snd_conv) simp
  then have e: "getProp (getProp (getProp (cachedState (snd (processUnsuspendTokenMessage decimalEnv
        lockingApi (Fin 2000) (Fin 1) (JStr ''t1'') (Fin 100000) parkedWorld)))
        ''suspendedTabs'') ''1'') ''tokenUsed'' = JBool True"
    by (simp add: key_one putTab_def parkedProps_def)
  from wr a b nw c pwr d e show ?thesis by blast
qed

text \<open>
  The claim as the specification words it fails: while the resume action for token
  \<open>t1\<close> is in flight the tab is parked again under the token \<open>t2\<close>; the finalize
  phase deletes that entry although its token is not the presented one.
\<close>

theorem finalize_revalidation_counterexample:
  "fst (processUnsuspendTokenMessage decimalEnv reparkingApi (Fin 2000) (Fin 1)
          (JStr ''t1'') (Fin 100000) parkedWorld) = Inr RespOk
   \<and> getProp (getProp (cachedState (snd (reparkingApi (Fin 1) JNull parkedWorld)))
        ''suspendedTabs'') ''1'' = JObj reparkedProps
   \<and> getProp (JObj reparkedProps) ''token'' = JStr ''t2''
   \<and> \<not> strictEq (JStr ''t2'') (JStr ''t1'')
   \<and> getProp (getProp (cachedState (snd (processUnsuspendTokenMessage decimalEnv reparkingApi
        (Fin 2000) (Fin 1) (JStr ''t1'') (Fin 100000) parkedWorld))) ''suspendedTabs'') ''1''
        = JUndefined"
proof -
  let ?used = "setProp ''tokenUsed'' (JBool True) (JObj parkedProps)"
  let ?sps = "[(''suspendedTabs'', JObj [(''1'', JObj parkedProps)])]"
  let ?reserved = "putTab (numberToString decimalEnv (Fin 1)) ?used (JObj ?sps)"
  let ?w1 = "parkedWorld\<lparr>cachedState := ?reserved,
      localState := storedPayload decimalEnv ?reserved parkedWorld\<rparr>"
  let ?w2 = "?w1\<lparr>cachedState := mkState [(''1'', JObj reparkedProps)]\<rparr>"
  let ?final = "deleteTab (numberToString decimalEnv (Fin 1))
      (JObj [(''suspendedTabs'', JObj [(''1'', JObj reparkedProps)])])"
  have wr: "stateIsWritable parkedWorld"
    unfolding parkedWorld_def by (rule unlockedWorld_writable)
  have st: "cachedState parkedWorld = JObj ?sps"
    by (simp add: parkedWorld_def mkState_def)
  have tabs: "map_of ?sps ''suspendedTabs'' = Some (JObj [(''1'', JObj parkedProps)])"
    by simp
  have ent: "map_of [(''1'', JObj parkedProps)] (numberToString decimalEnv (Fin 1))
      = Some (JObj parkedProps)"
    by (simp add: key_one)
  have tok: "strictEq (getProp (JObj parkedProps) ''token'') (JStr ''t1'')"
    by (simp del: getProp.simps)
  have unused: "\<not> truthy (getProp (JObj parkedProps) ''tokenUsed'')"
    by (simp del: getProp.simps)
  have fresh: "tokenExpired decimalEnv (Fin 2000)
      (orElse (getProp (JObj parkedProps) ''tokenIssuedAt'')
         (getProp (JObj parkedProps) ''suspendedAt'')) (Fin 100000) = Inr False"
    by (simp add: tokenExpired_def orElse_def del: getProp.simps)
  have prep: "prepareResult decimalEnv (Fin 2000) (Fin 1) (JStr ''t1'') (Fin 100000) parkedWorld
      = (Inr (Reserved ?used), ?w1)"
    by (rule prepare_reserves [OF wr st tabs ent tok unused fresh parkedState_encodes refl refl])
  have proc: "processUnsuspendTokenMessage decimalEnv reparkingApi (Fin 2000) (Fin 1)
          (JStr ''t1'') (Fin 100000) parkedWorld = finalizeResult decimalEnv (Fin 1) ?w2"
    using process_after_prepare [OF wr prep, of reparkingApi]
    by (simp add: reparkingApi_def)
  have wr2: "stateIsWritable ?w2" using wr by simp
  have st2: "cachedState ?w2 = JObj [(''suspendedTabs'', JObj [(''1'', JObj reparkedProps)])]"
    by (simp add: mkState_def)
  have tabs2: "map_of [(''suspendedTabs'', JObj [(''1'', JObj reparkedProps)])] ''suspendedTabs''
      = Some (JObj [(''1'', JObj reparkedProps)])"
    by simp
  have fin: "finalizeResult decimalEnv (Fin 1) ?w2 =
      (Inr RespOk, ?w2\<lparr>cachedState := ?final, localState := storedPayload decimalEnv ?final ?w2\<rparr>)"
    by (rule finalize_deletes [OF wr2 st2 tabs2 reparked_encodes refl])
  have gone: "getProp (getProp ?final ''suspendedTabs'') ''1'' = JUndefined"
    by (simp add: key_one deleteTab_def)
  have c1: "fst (processUnsuspendTokenMessage decimalEnv reparkingApi (Fin 2000) (Fin 1)
          (JStr ''t1'') (Fin 100000) parkedWorld) = Inr RespOk"
    by (simp only: proc fin fst_conv)
  have c5: "getProp (getProp (cachedState (snd (processUnsuspendTokenMessage decimalEnv reparkingApi
        (Fin 2000) (Fin 1) (JStr ''t1'') (Fin 100000) parkedWorld))) ''suspendedTabs'') ''1''
        = JUndefined"
    using gone by (simp only: proc fin snd_conv) simp
  have c2: "getProp (getProp (cachedState (snd (reparkingApi (Fin 1) JNull parkedWorld)))
        ''suspendedTabs'') ''1'' = JObj reparkedProps"
    by (simp add: reparkingApi_def mkState_def)
  have c3: "getProp (JObj reparkedProps) ''token'' = JStr ''t2''"
    by (simp del: getProp.simps)
  have c4: "\<not> strictEq (JStr ''t2'') (JStr ''t1'')"
    by simp
  from c1 c2 c3 c4 c5 show ?thesis by blast
qed


section \<open>Corruption stickiness\<close>

text \<open>
  C4 (as the code has it). Once \<open>loadState\<close> fails to decrypt the persisted
  payload, the state is marked corrupt. From then on, whatever sequence of
  \<open>loadState\<close>, \<open>saveState\<close>, resume-token messages, reconciliations,
  cloud-backup changes, storage notifications, unlock and key-import messages is
  performed, the state stays unwritable with reason \<open>corrupt-state\<close>, every
  \<open>saveState\<close> is refused with that reason, a resume-token message is answered with
  the locked result and the persisted payload is not touched, as long as the run is
  quiet: no notification says that the persisted state changed,
  and no unlock or key import leaves in memory a key under which the payload can be
  read. \<open>resetEncryption\<close> then clears the marker, removes the persisted state and
  the snapshots, installs the fresh key and leaves the empty state
  \<open>{suspendedTabs: {}}\<close>, cached, persisted under the new key and writable.
\<close>

theorem corruption_is_sticky:
  assumes unlocked: "\<not> stateIsLocked w0"
    and nocache: "\<not> truthy (cachedState w0)"
    and fails: "decryptFails E w0"
    and w1: "w1 = snd (loadState E w0)"
    and quiet: "quietRun E acts w1"
    and w2: "w2 = performAll E acts w1"
    and w3: "w3 = snd (resetEncryption E newKey now w2)"
  shows "stateIsCorrupt w1
       \<and> stateWriteBlockedReason w2 = Some ''corrupt-state''
       \<and> \<not> stateIsWritable w2
       \<and> localState w2 = localState w0
       \<and> saveState E state w2 = (Inl (Error ''corrupt-state''), w2\<lparr>cachedState := state\<rparr>)
       \<and> lockedMutationResponse False w2 = RespLocked ''corrupt-state''
       \<and> processUnsuspendTokenMessage E api nowv tabId token ttl w2
            = (Inr (RespLocked ''corrupt-state''), w2)
       \<and> fst (resetEncryption E newKey now w2) = Inr RespOk
       \<and> stateIsWritable w3
       \<and> cachedState w3 = mkState []
       \<and> stateCorruptionReason w3 = None
       \<and> localBackups w3 = None
       \<and> cryptoKey w3 = Some newKey
       \<and> localState w3 =
           Some (if enc_enabled (localSettings w3)
                 then Encrypted newKey (JObj [(''v'', JNum (Fin 2)), (''tabs'', JArr [])])
                 else PlainPayload (JObj [(''v'', JNum (Fin 2)), (''tabs'', JArr [])]))"
proof -
  have s1: "stuck E w0 w1"
    unfolding w1 using loadState_marks [OF unlocked nocache fails] by simp
  have s2: "stuck E w0 w2"
    unfolding w2 by (rule performAll_stuck [OF s1 quiet])
  have b2: "stateWriteBlockedReason w2 = Some ''corrupt-state''"
    by (rule stuck_blocked [OF s2])
  have c1: "stateIsCorrupt w1"
    using s1 by (simp add: stuck_def stateIsCorrupt_def)
  have nw: "\<not> stateIsWritable w2"
    using b2 by (simp add: stateIsWritable_def)
  have ls: "localState w2 = localState w0"
    using s2 by (simp add: stuck_def)
  have sv: "saveState E state w2 = (Inl (Error ''corrupt-state''), w2\<lparr>cachedState := state\<rparr>)"
    by (rule saveState_stuck(1) [OF s2])
  have lm: "lockedMutationResponse False w2 = RespLocked ''corrupt-state''"
    using b2 by (simp add: lockedMutationResponse_def orText_def)
  have tk: "processUnsuspendTokenMessage E api nowv tabId token ttl w2
            = (Inr (RespLocked ''corrupt-state''), w2)"
    by (rule token_stuck [OF s2])
  from reset_fresh [OF w3] c1 b2 nw ls sv lm tk show ?thesis by simp
qed

theorem corruption_is_sticky_witness:
  "\<not> stateIsLocked wornWorld
   \<and> \<not> truthy (cachedState wornWorld)
   \<and> decryptFails decimalEnv wornWorld
   \<and> quietRun decimalEnv
        [DoLoadState, DoSaveState (mkState []), DoStorageChanged ''sync'' True, DoReconcile,
         DoUnlock ''salt'' ''iv'' 0 ''passkey'', DoRetryImport]
        (snd (loadState decimalEnv wornWorld))
   \<and> stateWriteBlockedReason
        (performAll decimalEnv
           [DoLoadState, DoSaveState (mkState []), DoStorageChanged ''sync'' True, DoReconcile,
            DoUnlock ''salt'' ''iv'' 0 ''passkey'', DoRetryImport]
           (snd (loadState decimalEnv wornWorld))) = Some ''corrupt-state''
   \<and> localState
        (performAll decimalEnv
           [DoLoadState, DoSaveState (mkState []), DoStorageChanged ''sync'' True, DoReconcile,
            DoUnlock ''salt'' ''iv'' 0 ''passkey'', DoRetryImport]
           (snd (loadState decimalEnv wornWorld))) = Some Garbled
   \<and> stateIsWritable (snd (resetEncryption decimalEnv 9 0
        (performAll decimalEnv
           [DoLoadState, DoSaveState (mkState []), DoStorageChanged ''sync'' True, DoReconcile,
            DoUnlock ''salt'' ''iv'' 0 ''passkey'', DoRetryImport]
           (snd (loadState decimalEnv wornWorld)))))
   \<and> cachedState (snd (resetEncryption decimalEnv 9 0
        (performAll decimalEnv
           [DoLoadState, DoSaveState (mkState []), DoStorageChanged ''sync'' True, DoReconcile,
            DoUnlock ''salt'' ''iv'' 0 ''passkey'', DoRetryImport]
           (snd (loadState decimalEnv wornWorld))))) = mkState []"
proof -
  let ?acts = "[DoLoadState, DoSaveState (mkState []), DoStorageChanged ''sync'' True, DoReconcile,
         DoUnlock ''salt'' ''iv'' 0 ''passkey'', DoRetryImport]"
  have facts: "\<not> stateIsLocked wornWorld" "\<not> truthy (cachedState wornWorld)"
    "decryptFails decimalEnv wornWorld" "localState wornWorld = Some Garbled"
    by (simp_all add: wornWorld_def garbledWorld_def unlockedWorld_def freshWorld_def
        stateIsLocked_def encryptionIsLocked_def hasCryptoKey_def decryptFails_def)
  have s1: "stuck decimalEnv wornWorld (snd (loadState decimalEnv wornWorld))"
    using loadState_marks [OF facts(1,2,3)] by simp
  have quiet: "quietRun decimalEnv ?acts (snd (loadState decimalEnv wornWorld))"
    by (rule garbled_quiet [OF s1 facts(4)]) simp
  note inst = corruption_is_sticky [OF facts(1,2,3) refl quiet refl refl,
      where state = "mkState []" and newKey = 9 and now = 0]
  from inst facts quiet show ?thesis by simp
qed

text \<open>
  The claim as the specification words it fails, in two ways. \<open>handleStorageChanged\<close>
  clears the marker (and the cache) when \<open>chrome.storage.onChanged\<close> reports a change
  of the state key: after it the state is writable again with no reset, and a
  \<open>saveState\<close> that is not preceded by \<open>loadState\<close> (as in \<open>restoreSnapshot\<close>
  and \<open>handleInstalled\<close>) replaces the ciphertext that could not be decrypted. And
  when the payload failed under the key in memory, an \<open>UNLOCK_WITH_PASSKEY\<close> message
  that unwraps the key the payload was written under, or a \<open>RETRY_IMPORT_KEY\<close>
  message that imports it, makes the reconciliation decrypt the payload, clear the
  marker and save: the state is writable with no reset.
\<close>

theorem corruption_cleared_counterexample:
  "decryptFails decimalEnv garbledWorld
   \<and> stateIsCorrupt (snd (loadState decimalEnv garbledWorld))
   \<and> stateIsWritable (handleStorageChanged ''local'' True (snd (loadState decimalEnv garbledWorld)))
   \<and> fst (saveState decimalEnv (mkState [])
        (handleStorageChanged ''local'' True (snd (loadState decimalEnv garbledWorld)))) = Inr ()
   \<and> localState (snd (saveState decimalEnv (mkState [])
        (handleStorageChanged ''local'' True (snd (loadState decimalEnv garbledWorld)))))
       = Some (Encrypted 5 (JObj [(''v'', JNum (Fin 2)), (''tabs'', JArr [])]))
   \<and> decryptFails decimalEnv staleKeyWorld
   \<and> stateIsCorrupt (snd (loadState decimalEnv staleKeyWorld))
   \<and> fst (unlockAndReconcile decimalEnv ''salt'' ''iv'' 0 ''passkey''
        (snd (loadState decimalEnv staleKeyWorld))) = Inr RespOk
   \<and> stateIsWritable (snd (unlockAndReconcile decimalEnv ''salt'' ''iv'' 0 ''passkey''
        (snd (loadState decimalEnv staleKeyWorld))))
   \<and> decryptFails decimalEnv staleImportWorld
   \<and> stateIsCorrupt (snd (loadState decimalEnv staleImportWorld))
   \<and> fst (retryImportKey decimalEnv (snd (loadState decimalEnv staleImportWorld))) = Inr RespOk
   \<and> stateIsWritable (snd (retryImportKey decimalEnv (snd (loadState decimalEnv staleImportWorld))))"
proof -
  let ?w2 = "handleStorageChanged ''local'' True (snd (loadState decimalEnv garbledWorld))"
  have c: "stateIsCorrupt (snd (loadState decimalEnv garbledWorld))"
    by (simp add: loadState_garbled stateIsCorrupt_def)
  have w2: "?w2 = garbledWorld\<lparr>stateCorruptionReason := None, cachedState := JNull\<rparr>"
    by (simp add: loadState_garbled handleStorageChanged_def clearStateCorruption_def)
  have wr: "stateIsWritable ?w2"
    unfolding w2
    by (simp add: stateIsWritable_def stateWriteBlockedReason_def stateIsCorrupt_def
        stateIsLocked_def encryptionIsLocked_def hasCryptoKey_def garbledWorld_def
        unlockedWorld_def freshWorld_def)
  have enc: "succeeds (encodeStateV2 decimalEnv (mkState []))"
    by (simp add: encode_empty)
  have sp: "storedPayload decimalEnv (mkState []) ?w2
      = Some (Encrypted 5 (JObj [(''v'', JNum (Fin 2)), (''tabs'', JArr [])]))"
    unfolding w2
    by (simp add: storedPayload_def encode_empty ensureSettings_def garbledWorld_def
        unlockedWorld_def freshWorld_def)
  have first: "decryptFails decimalEnv garbledWorld
   \<and> stateIsCorrupt (snd (loadState decimalEnv garbledWorld))
   \<and> stateIsWritable ?w2
   \<and> fst (saveState decimalEnv (mkState []) ?w2) = Inr ()
   \<and> localState (snd (saveState decimalEnv (mkState []) ?w2))
       = Some (Encrypted 5 (JObj [(''v'', JNum (Fin 2)), (''tabs'', JArr [])]))"
    using saveState_ok [OF wr enc] sp c wr garbledWorld_facts(3) by simp
  have sf: "\<not> stateIsLocked staleKeyWorld" "\<not> truthy (cachedState staleKeyWorld)"
    "decryptFails decimalEnv staleKeyWorld"
    by (simp_all add: staleKeyWorld_def unlockedWorld_def freshWorld_def stateIsLocked_def
        encryptionIsLocked_def hasCryptoKey_def decryptFails_def decryptPayload_def)
  note marks = loadState_marks [OF sf]
  have l: "snd (loadState decimalEnv staleKeyWorld) =
      staleKeyWorld\<lparr>stateCorruptionReason := Some ''corrupt-state'', cachedState := mkState []\<rparr>"
    using sf
    by (simp add: loadState_def markStateCorrupt_def orElse_def staleKeyWorld_def
        decryptPayload_def unlockedWorld_def freshWorld_def Let_def stateIsLocked_def
        encryptionIsLocked_def hasCryptoKey_def)
  have c2: "stateIsCorrupt (snd (loadState decimalEnv staleKeyWorld))"
    using marks by (simp add: stuck_def stateIsCorrupt_def)
  have u: "unlockWithPasskey decimalEnv ''salt'' ''iv'' 0 ''passkey''
      (staleKeyWorld\<lparr>stateCorruptionReason := Some ''corrupt-state'', cachedState := mkState []\<rparr>)
      = (RespOk, staleKeyWorld\<lparr>stateCorruptionReason := Some ''corrupt-state'',
           cachedState := mkState [], cryptoKey := Some 7, sessionCryptoKey := Some 7,
           localKeyRecord := Some (weakRecord\<lparr>encryptedKey := Some ''rewrapped'',
             iterations := Some 150000\<rparr>)\<rparr>)"
    by (simp add: unlockWithPasskey_def unwrapDataKey_def isValidKeyRecord_def
        deriveWrappingKey_def orDefault_def wrapDataKey_def persistKeyRecord_def
        loadKeyRecord_def ensureSettings_def saveKeyToSession_def MIN_ITERATIONS_def
        staleKeyWorld_def weakRecord_def unlockedWorld_def freshWorld_def Let_def)
  let ?w1 = "staleKeyWorld\<lparr>stateCorruptionReason := Some ''corrupt-state'',
           cachedState := mkState [], cryptoKey := Some 7, sessionCryptoKey := Some 7,
           localKeyRecord := Some (weakRecord\<lparr>encryptedKey := Some ''rewrapped'',
             iterations := Some 150000\<rparr>)\<rparr>"
  have dec: "decodeStateAny decimalEnv (JObj [(''v'', JNum (Fin 2)), (''tabs'', JArr [])])
      = Inr (mkState [])"
    by (simp add: decodeStateAny_def decodeCompactState_def)
  have r: "reconcilePendingStateAfterUnlock decimalEnv ?w1 =
      (Inr (), ?w1\<lparr>stateCorruptionReason := None\<rparr>)"
    by (simp add: reconcilePendingStateAfterUnlock_def decryptPayload_def dec
        clearStateCorruption_def saveStateInternal_def stateWriteBlockedReason_def
        stateIsCorrupt_def stateIsLocked_def encryptionIsLocked_def hasCryptoKey_def
        encode_empty ensureSettings_def encryptPayload_def staleKeyWorld_def
        unlockedWorld_def freshWorld_def Let_def)
  have ur: "unlockAndReconcile decimalEnv ''salt'' ''iv'' 0 ''passkey''
      (snd (loadState decimalEnv staleKeyWorld)) = (Inr RespOk, ?w1\<lparr>stateCorruptionReason := None\<rparr>)"
    unfolding l
    by (simp add: unlockAndReconcile_def u r stateIsCorrupt_def)
  have wr2: "stateIsWritable (?w1\<lparr>stateCorruptionReason := None\<rparr>)"
    by (simp add: stateIsWritable_def stateWriteBlockedReason_def stateIsCorrupt_def
        stateIsLocked_def encryptionIsLocked_def hasCryptoKey_def staleKeyWorld_def
        unlockedWorld_def freshWorld_def)
  have tf: "\<not> stateIsLocked staleImportWorld" "\<not> truthy (cachedState staleImportWorld)"
    "decryptFails decimalEnv staleImportWorld"
    by (simp_all add: staleImportWorld_def unlockedWorld_def freshWorld_def stateIsLocked_def
        encryptionIsLocked_def hasCryptoKey_def decryptFails_def decryptPayload_def)
  have l3: "snd (loadState decimalEnv staleImportWorld) =
      staleImportWorld\<lparr>stateCorruptionReason := Some ''corrupt-state'', cachedState := mkState []\<rparr>"
    using tf
    by (simp add: loadState_def markStateCorrupt_def orElse_def staleImportWorld_def
        decryptPayload_def unlockedWorld_def freshWorld_def Let_def stateIsLocked_def
        encryptionIsLocked_def hasCryptoKey_def)
  have c3: "stateIsCorrupt (snd (loadState decimalEnv staleImportWorld))"
    by (simp add: l3 stateIsCorrupt_def)
  let ?v1 = "staleImportWorld\<lparr>stateCorruptionReason := Some ''corrupt-state'',
           cachedState := mkState [], cryptoKey := Some 7, sessionCryptoKey := Some 7\<rparr>"
  have i: "retryImportPlaintextKey decimalEnv
      (staleImportWorld\<lparr>stateCorruptionReason := Some ''corrupt-state'', cachedState := mkState []\<rparr>)
      = (RespOk, ?v1)"
    by (simp add: retryImportPlaintextKey_def loadKeyRecord_def ensureSettings_def
        saveKeyToSession_def staleImportWorld_def unlockedWorld_def freshWorld_def Let_def)
  have r3: "reconcilePendingStateAfterUnlock decimalEnv ?v1 =
      (Inr (), ?v1\<lparr>stateCorruptionReason := None\<rparr>)"
    by (simp add: reconcilePendingStateAfterUnlock_def decryptPayload_def dec
        clearStateCorruption_def saveStateInternal_def stateWriteBlockedReason_def
        stateIsCorrupt_def stateIsLocked_def encryptionIsLocked_def hasCryptoKey_def
        encode_empty ensureSettings_def encryptPayload_def staleImportWorld_def
        unlockedWorld_def freshWorld_def Let_def)
  have ir: "retryImportKey decimalEnv (snd (loadState decimalEnv staleImportWorld))
      = (Inr RespOk, ?v1\<lparr>stateCorruptionReason := None\<rparr>)"
    unfolding l3 by (simp add: retryImportKey_def i r3)
  have wr3: "stateIsWritable (?v1\<lparr>stateCorruptionReason := None\<rparr>)"
    by (simp add: stateIsWritable_def stateWriteBlockedReason_def stateIsCorrupt_def
        stateIsLocked_def encryptionIsLocked_def hasCryptoKey_def staleImportWorld_def
        unlockedWorld_def freshWorld_def)
  from first sf(3) c2 ur wr2 tf(3) c3 ir wr3 show ?thesis by simp
qed

section \<open>Cloud backup eligibility\<close>

text \<open>
  C5 (as the code has it). When the key record that \<open>setCloudBackupEnabled(true)\<close>
  loads is missing or is not passkey-wrapped, the call is answered
  \<open>{ok: false, error: 'passkey-required'}\<close> and writes nothing: the settings, and
  with them the persisted cloud-backup preference, are what they were, and so are both
  storage areas. \<open>persistKeyRecord\<close> stores a record in the synced area exactly when
  the record has both \<open>cloudBackupEnabled\<close> and \<open>usingPasskey\<close>, and removes the
  synced record otherwise; so a record that is not passkey-wrapped is never written
  there.
\<close>

theorem cloud_backup_requires_passkey:
  assumes "case loadKeyRecord True w of None \<Rightarrow> True | Some r \<Rightarrow> \<not> usingPasskey r"
  shows "setCloudBackupEnabled now True w = (RespError ''passkey-required'', w)
       \<and> localSettings (snd (setCloudBackupEnabled now True w)) = localSettings w
       \<and> syncKeyRecord (snd (setCloudBackupEnabled now True w)) = syncKeyRecord w
       \<and> localKeyRecord (snd (setCloudBackupEnabled now True w)) = localKeyRecord w
       \<and> syncKeyRecord (snd (persistKeyRecord record w')) =
            (if cloudBackupEnabled record \<and> usingPasskey record then Some record else None)
       \<and> (\<not> usingPasskey record \<longrightarrow> syncKeyRecord (snd (persistKeyRecord record w')) = None)"
proof -
  have "setCloudBackupEnabled now True w = (RespError ''passkey-required'', w)"
    using assms
    by (cases "loadKeyRecord True w"; cases "cryptoKey w")
       (simp_all add: setCloudBackupEnabled_def Let_def)
  then show ?thesis by (simp add: persist_fields)
qed

theorem cloud_backup_requires_passkey_witness:
  "loadKeyRecord True plainKeyWorld \<noteq> None
   \<and> \<not> usingPasskey (the (loadKeyRecord True plainKeyWorld))
   \<and> setCloudBackupEnabled 0 True plainKeyWorld = (RespError ''passkey-required'', plainKeyWorld)
   \<and> \<not> enc_cloudBackupEnabled (localSettings (snd (setCloudBackupEnabled 0 True plainKeyWorld)))
   \<and> syncKeyRecord (snd (persistKeyRecord
         ((the (loadKeyRecord True plainKeyWorld))\<lparr>cloudBackupEnabled := True\<rparr>) plainKeyWorld))
       = None"
proof -
  have rec: "loadKeyRecord True plainKeyWorld =
      Some \<lparr>usingPasskey = False, dataKey = Some 5, encryptedKey = None, keySalt = None,
           keyIV = None, iterations = None, cloudBackupEnabled = False, keyVersion = 1,
           updatedAt = 0\<rparr>"
    by (simp add: loadKeyRecord_def plainKeyWorld_def unlockedWorld_def freshWorld_def)
  have hyp: "case loadKeyRecord True plainKeyWorld of None \<Rightarrow> True | Some r \<Rightarrow> \<not> usingPasskey r"
    by (simp add: rec)
  have pref: "\<not> enc_cloudBackupEnabled (localSettings plainKeyWorld)"
    by (simp add: plainKeyWorld_def unlockedWorld_def freshWorld_def)
  note inst = cloud_backup_requires_passkey [OF hyp, of 0
      "(the (loadKeyRecord True plainKeyWorld))\<lparr>cloudBackupEnabled := True\<rparr>" plainKeyWorld]
  from inst pref show ?thesis by (simp add: rec)
qed

text \<open>
  The claim as the specification words it fails: the rejected call does not force the
  preference off. With a plaintext key record and a persisted preference that is true,
  the call is answered \<open>passkey-required\<close> and the preference is still true.
\<close>

theorem cloud_backup_preference_counterexample:
  "\<not> usingPasskey (the (loadKeyRecord True prefTrueWorld))
   \<and> fst (setCloudBackupEnabled 0 True prefTrueWorld) = RespError ''passkey-required''
   \<and> enc_cloudBackupEnabled (localSettings (snd (setCloudBackupEnabled 0 True prefTrueWorld)))"
  by (simp add: setCloudBackupEnabled_def loadKeyRecord_def ensureSettings_def Let_def
      prefTrueWorld_def plainKeyWorld_def unlockedWorld_def freshWorld_def)

section \<open>The codec round trip\<close>

text \<open>
  Claim C9. Take a valid state: its item ids are the decimal strings of positive
  integers, no id occurs twice, and every entry is an object with a non-empty string
  \<open>url\<close> whose number fields hold primitive values. Then \<open>encodeStateV2\<close> returns
  an encoding, \<open>decodeStateAny\<close> of that encoding returns a state that has exactly the
  ids of the original, each with the normal form of the original entry, and
  \<open>decodeStateAny\<close> applied to the state itself (the older keyed-object encoding)
  returns the same. An entry that is already in normal form is its own normal form, so
  a state of normalized entries is reproduced field by field.
\<close>

theorem codec_round_trip:
  assumes d: "distinct (map fst tabs)"
    and v: "\<forall>(k, e) \<in> set tabs. validId E k \<and> validEntry e"
  shows "\<exists>encoded decoded legacy.
      encodeStateV2 E (mkState tabs) = Inr encoded
    \<and> decodeStateAny E encoded = Inr (mkState decoded)
    \<and> decodeStateAny E (mkState tabs) = Inr (mkState legacy)
    \<and> (\<forall>k. map_of decoded k = map_option (canonical E) (map_of tabs k))
    \<and> (\<forall>k. map_of legacy k = map_option (canonical E) (map_of tabs k))
    \<and> (\<forall>(k, e) \<in> set tabs. normalizeEntry E (canonical E e) = Inr (canonical E e))"
proof -
  let ?sorted = "sortEntries E tabs"
  have vs: "\<forall>(k, e) \<in> set ?sorted. validId E k \<and> validEntry e"
    using v by simp
  have ds: "distinct (map fst ?sorted)"
    by (rule distinct_sortEntries [OF d])
  from encode_then_decode_loop [OF vs, of "[]" "[]"] obtain ts where
    ts: "encodeLoop E ?sorted [] = Inr ts" "compactLoop E ts [] = Inr (storeAll E ?sorted [])"
    by auto
  have enc: "encodeStateV2 E (mkState tabs) = Inr (JObj [(''v'', JNum (Fin 2)), (''tabs'', JArr ts)])"
    using ts(1) by (simp add: encodeStateV2_def mkState_def orElse_def)
  have dec: "decodeStateAny E (JObj [(''v'', JNum (Fin 2)), (''tabs'', JArr ts)])
               = Inr (mkState (storeAll E ?sorted []))"
    using ts(2) by (simp add: decodeStateAny_def decodeCompactState_def)
  have vl: "\<forall>(k, e) \<in> set tabs. validEntry e"
    using v by auto
  have leg: "decodeStateAny E (mkState tabs) = Inr (mkState (storeAll E tabs []))"
    using legacy_loop [OF vl, of E "[]"]
    by (simp add: decodeStateAny_def decodeLegacyState_def mkState_def Let_def)
  have np: "\<forall>(k, e) \<in> set tabs. k \<noteq> ''__proto__''"
    using v by (auto simp: validId_def split: jsnum.splits)
  have nps: "\<forall>(k, e) \<in> set ?sorted. k \<noteq> ''__proto__''"
    using np by simp
  have m1: "map_of (storeAll E ?sorted []) k = map_option (canonical E) (map_of tabs k)" for k
    using map_of_storeAll [OF ds nps, of E "[]" k] map_of_sortEntries [OF d, of E]
    by (simp split: option.splits)
  have m2: "map_of (storeAll E tabs []) k = map_option (canonical E) (map_of tabs k)" for k
    using map_of_storeAll [OF d np, of E "[]" k]
    by (simp split: option.splits)
  have idem: "\<forall>(k, e) \<in> set tabs. normalizeEntry E (canonical E e) = Inr (canonical E e)"
    using vl validEntry_normalized normalizeEntry_idem by blast
  from enc dec leg m1 m2 idem show ?thesis by blast
qed

theorem codec_round_trip_witness:
  "distinct (map fst twoTabs)
   \<and> list_all (\<lambda>(k, e). validId decimalEnv k \<and> validEntry e) twoTabs
   \<and> (\<exists>encoded decoded legacy.
        encodeStateV2 decimalEnv (mkState twoTabs) = Inr encoded
      \<and> decodeStateAny decimalEnv encoded = Inr (mkState decoded)
      \<and> decodeStateAny decimalEnv (mkState twoTabs) = Inr (mkState legacy)
      \<and> map_of decoded ''1'' = Some (JObj parkedProps)
      \<and> map_of legacy ''1'' = Some (JObj parkedProps)
      \<and> map_of decoded ''3'' = None
      \<and> map_of legacy ''3'' = None)"
proof -
  have d: "distinct (map fst twoTabs)"
    by (simp add: twoTabs_def)
  have one: "validId decimalEnv ''1''"
    using key_one by (simp add: validId_def decimalEnv_stringToNumber digitVal_def isInteger_def)
  have "numberToString decimalEnv (Fin 2) = ''2''"
    using decimalEnv_numberToString [of 2] by (simp add: digitChar_def)
  then have two: "validId decimalEnv ''2''"
    by (simp add: validId_def decimalEnv_stringToNumber digitVal_def isInteger_def)
  have e1: "validEntry (JObj parkedProps)"
    by (simp add: validEntry_def parkedProps_def)
  have e2: "validEntry (JObj plainProps)"
    by (simp add: validEntry_def plainProps_def)
  have v: "\<forall>(k, e) \<in> set twoTabs. validId decimalEnv k \<and> validEntry e"
    using one two e1 e2 by (simp add: twoTabs_def)
  have c: "canonical decimalEnv (JObj parkedProps) = JObj parkedProps"
    by (simp add: canonical_def normalizeEntry_def Let_def decodeMethod_def isFinite_def
        stringOrEmpty_def parkedProps_def)
  from codec_round_trip [OF d v] obtain encoded decoded legacy where
    r: "encodeStateV2 decimalEnv (mkState twoTabs) = Inr encoded"
       "decodeStateAny decimalEnv encoded = Inr (mkState decoded)"
       "decodeStateAny decimalEnv (mkState twoTabs) = Inr (mkState legacy)"
       "\<forall>k. map_of decoded k = map_option (canonical decimalEnv) (map_of twoTabs k)"
       "\<forall>k. map_of legacy k = map_option (canonical decimalEnv) (map_of twoTabs k)"
    by blast
  have m1: "map_of twoTabs ''1'' = Some (JObj parkedProps)"
    by (simp add: twoTabs_def)
  have m3: "map_of twoTabs ''3'' = None"
    by (simp add: twoTabs_def)
  have "map_of decoded ''1'' = Some (JObj parkedProps)" "map_of legacy ''1'' = Some (JObj parkedProps)"
    "map_of decoded ''3'' = None" "map_of legacy ''3'' = None"
    using r(4) r(5) m1 m3 c by simp_all
  with r(1-3) have "\<exists>encoded decoded legacy.
        encodeStateV2 decimalEnv (mkState twoTabs) = Inr encoded
      \<and> decodeStateAny decimalEnv encoded = Inr (mkState decoded)
      \<and> decodeStateAny decimalEnv (mkState twoTabs) = Inr (mkState legacy)
      \<and> map_of decoded ''1'' = Some (JObj parkedProps)
      \<and> map_of legacy ''1'' = Some (JObj parkedProps)
      \<and> map_of decoded ''3'' = None
      \<and> map_of legacy ''3'' = None"
    by blast
  moreover have "list_all (\<lambda>(k, e). validId decimalEnv k \<and> validEntry e) twoTabs"
    using v by (simp add: list_all_iff)
  ultimately show ?thesis using d by blast
qed

section \<open>Decoding arbitrary input\<close>

text \<open>
  Claim C10. \<open>decodeStateAny\<close> does not return for every input. \<open>toFiniteNumber\<close>
  passes the field to \<open>Number\<close>, and \<open>Number\<close> throws a \<open>TypeError\<close> for an object
  that has an own property named \<open>toString\<close>. A legacy state whose entry holds such
  an object as its window id makes \<open>decodeStateAny\<close> throw, and \<open>loadState\<close>, which
  decodes a plain payload outside its \<open>try\<close> block, throws with it.
\<close>

theorem decodeStateAny_throws:
  "decodeStateAny E oddState = Inl TypeError
   \<and> fst (loadState E (unlockedWorld\<lparr>localState := Some (PlainPayload oddState)\<rparr>))
       = Inl TypeError"
  by (simp add: decodeStateAny_def decodeLegacyState_def oddState_def mkState_def
      normalizeEntry_def Let_def decodeMethod_def orElse_def toFiniteNumber_def
      loadState_def stateIsLocked_def encryptionIsLocked_def hasCryptoKey_def
      unlockedWorld_def freshWorld_def clearStateCorruption_def)

theorem decodeStateAny_throws_witness:
  "decodeStateAny decimalEnv oddState = Inl TypeError
   \<and> fst (loadState decimalEnv (unlockedWorld\<lparr>localState := Some (PlainPayload oddState)\<rparr>))
       = Inl TypeError"
  by (rule decodeStateAny_throws)

section \<open>The state lock\<close>

text \<open>
  Claim C3. Let any number of handlers call \<open>withStateLock\<close> and let the event loop
  resume the calls in any order it can. Then at every moment: at most one call is
  inside its callback or between its callback and its \<open>finally\<close> block; the
  segments that have run are grouped by call, in the order in which the calls were
  made; every finished call has resolved its promise, whether its callback returned or
  threw; the first call that is not finished can always be resumed, so the lock is never
  left held; and once all calls are finished the shared state is what running the
  callbacks one after the other, in the order of the calls, gives.
\<close>

theorem state_lock_serializes:
  assumes "run es (initial s0) = Some r"
  shows "(\<forall>i j. i < length (calls r) \<and> j < length (calls r)
            \<and> holding (calls r ! i) \<and> holding (calls r ! j) \<longrightarrow> i = j)
       \<and> sorted (trace r)
       \<and> (\<forall>i < length (calls r). stage (calls r ! i) = Released
            \<longrightarrow> granted (calls r ! i) \<in> set (resolved r))
       \<and> (\<forall>i < length (calls r). stage (calls r ! i) \<noteq> Released
            \<and> (\<forall>j < i. stage (calls r ! j) = Released) \<longrightarrow> resume i r \<noteq> None)
       \<and> ((\<forall>c \<in> set (calls r). stage c = Released) \<longrightarrow> store r = serial (calls r) s0)"
proof -
  have consistent: "consistent s0 r"
    using consistent_run [OF consistent_initial assms] .
  have "\<forall>i j. i < length (calls r) \<and> j < length (calls r)
            \<and> holding (calls r ! i) \<and> holding (calls r ! j) \<longrightarrow> i = j"
    using consistent_exclusive [OF consistent] by blast
  moreover have "sorted (trace r)"
    using consistent by (simp add: consistent_def traced_def)
  moreover have "\<forall>i < length (calls r). stage (calls r ! i) = Released
            \<longrightarrow> granted (calls r ! i) \<in> set (resolved r)"
    using consistent unfolding consistent_def chained_def by blast
  moreover have "\<forall>i < length (calls r). stage (calls r ! i) \<noteq> Released
            \<and> (\<forall>j < i. stage (calls r ! j) = Released) \<longrightarrow> resume i r \<noteq> None"
    using consistent_next_in_line [OF consistent] by blast
  moreover have "(\<forall>c \<in> set (calls r). stage c = Released) \<longrightarrow> store r = serial (calls r) s0"
    using consistent_serial [OF consistent] by blast
  ultimately show ?thesis by blast
qed

theorem state_lock_serializes_witness:
  "\<exists>r. run busy (initial 0) = Some r
      \<and> list_all (\<lambda>c. stage c = Released) (calls r)
      \<and> threw (calls r ! 1)
      \<and> trace r = [0, 0, 1, 2, 2]
      \<and> serial (calls r) 0 = 2
      \<and> store r = serial (calls r) 0"
proof -
  have "case run busy (initial 0) of
          None \<Rightarrow> False
        | Some r \<Rightarrow> list_all (\<lambda>c. stage c = Released) (calls r) \<and> threw (calls r ! 1)
            \<and> trace r = [0, 0, 1, 2, 2] \<and> serial (calls r) 0 = 2"
    by (simp add: busy_def increment_def failing_def initial_def enter_def resume_def
        runSegment_def serial_def Let_def)
  then obtain r where r: "run busy (initial 0) = Some r"
    and p: "list_all (\<lambda>c. stage c = Released) (calls r)" "threw (calls r ! 1)"
      "trace r = [0, 0, 1, 2, 2]" "serial (calls r) 0 = 2"
    by (cases "run busy (initial 0)") auto
  from state_lock_serializes [OF r] p(1) have "store r = serial (calls r) 0"
    by (simp add: list_all_iff)
  with r p show ?thesis by blast
qed

end
